theory Spec2Isabelle
  imports Complex_Main "HOL-Library.Word"
begin

section \<open>The Artemis Global Tracker, example 14: the simple tracker\<close>

text \<open>
  A shallow embedding of \<^verbatim>\<open>Example14_SimpleTracker.ino\<close>. The sketch is one
  \<^verbatim>\<open>switch\<close> over the global \<^verbatim>\<open>loop_step\<close>, run forever by the Arduino core, and
  an interrupt handler for the one-second alarm of the real-time clock. The globals of
  the sketch are the fields of the record \<open>state\<close>; every function of the sketch is a
  function from state to state.

  What the sketch reads from the outside world (the converter, the PGOOD input, the
  drivers of the receiver, of the sensor and of the modem, the cause of a wake-up) is
  an input: the record \<open>env\<close> gives, for the n-th call to the outside world, what that
  call returns. The calls are logged in the field \<open>calls\<close>, latest first, and the length
  of the log is the index of the next call.

  The millisecond clock is the field \<open>millis\<close>, an unsigned 32-bit value; \<^verbatim>\<open>delay(n)\<close>
  advances it by \<open>n\<close> and nothing else does. Every \<^verbatim>\<open>digitalWrite\<close> and \<^verbatim>\<open>pinMode\<close>
  records the pin configuration it leaves in \<open>pin_trace\<close>, latest first.

  Prints to the serial console and the calls into the Ambiq HAL that configure clocks,
  memory banks, pads and the converter change nothing that the sketch reads back and
  are left out. The values \<^verbatim>\<open>float\<close> are modelled as reals (the sketch compares them
  and multiplies them; the text of the message, made by \<^verbatim>\<open>dtostrf\<close> and \<^verbatim>\<open>sprintf\<close>
  of the C library, is not modelled).
\<close>

subsection \<open>Pins\<close>

text \<open>The pin definitions of the sketch (lines 53 to 65), with their pad numbers.\<close>

datatype pin =
    spiCS1            \<comment> \<open>4\<close>
  | geofencePin       \<comment> \<open>10\<close>
  | busVoltagePin     \<comment> \<open>13\<close>
  | iridiumSleep      \<comment> \<open>17\<close>
  | iridiumNA         \<comment> \<open>18\<close>
  | LED               \<comment> \<open>19\<close>
  | iridiumPwrEN      \<comment> \<open>22\<close>
  | gnssEN            \<comment> \<open>26\<close>
  | superCapChgEN     \<comment> \<open>27\<close>
  | superCapPGOOD     \<comment> \<open>28\<close>
  | busVoltageMonEN   \<comment> \<open>34\<close>
  | spiCS2            \<comment> \<open>35\<close>
  | iridiumRI         \<comment> \<open>41\<close>

datatype level = LOW | HIGH

datatype pinmode = INPUT | OUTPUT | INPUT_PULLUP

record pins =
  mode :: "pin \<Rightarrow> pinmode"
  level :: "pin \<Rightarrow> level"

subsection \<open>The outside world\<close>

datatype call =
    AnalogRead pin
  | DigitalRead pin
  | Serial_begin | Serial_flush | Serial_end
  | Wire1_begin | Wire1_end
  | IridiumSerial_begin | IridiumSerial_end
  | GPS_begin | GPS_setI2COutput | GPS_setDynamicModel | GPS_getFixType
  | GPS_getMillisecond | GPS_getSecond | GPS_getMinute | GPS_getHour
  | GPS_getDay | GPS_getMonth | GPS_getYear
  | GPS_getLatitude | GPS_getLongitude | GPS_getAltitudeMSL | GPS_getGroundSpeed
  | GPS_getSIV | GPS_getHeading | GPS_getPDOP
  | Sensor_begin | Sensor_getTemperature | Sensor_getPressure
  | Modem_setPowerProfile | Modem_begin | Modem_sendSBDText
  | Modem_clearBuffers | Modem_sleep
  | Deep_sleep

record env =
  analog_in :: "nat \<Rightarrow> nat"      \<comment> \<open>what \<^verbatim>\<open>analogRead\<close> returns\<close>
  digital_in :: "nat \<Rightarrow> bool"    \<comment> \<open>what \<^verbatim>\<open>digitalRead\<close> returns, read as a \<^verbatim>\<open>bool\<close>\<close>
  bool_in :: "nat \<Rightarrow> bool"       \<comment> \<open>what a driver's \<^verbatim>\<open>begin\<close> or setter returns\<close>
  byte_in :: "nat \<Rightarrow> 8 word"     \<comment> \<open>what a getter of a \<^verbatim>\<open>uint8_t\<close> returns\<close>
  int_in :: "nat \<Rightarrow> int"         \<comment> \<open>what an integer getter or a modem call returns\<close>
  real_in :: "nat \<Rightarrow> real"       \<comment> \<open>what a \<^verbatim>\<open>float\<close> getter returns\<close>
  polls_in :: "nat \<Rightarrow> nat"       \<comment> \<open>how often a send would call \<^verbatim>\<open>ISBDCallback\<close>\<close>
  modem_pin_in :: "nat \<Rightarrow> level" \<comment> \<open>where a modem call leaves the ON/OFF pin it owns\<close>
  wake_in :: "nat \<Rightarrow> bool"       \<comment> \<open>whether a wake-up from deep sleep is the alarm\<close>
  isbd_success :: int             \<comment> \<open>the library's \<^verbatim>\<open>ISBD_SUCCESS\<close>\<close>

subsection \<open>The globals\<close>

text \<open>The steps of the loop (lines 148 to 156), in the order of their numbers 0 to 8.\<close>

datatype step =
    loop_init | start_GPS | read_GPS | read_pressure | start_LTC3225
  | wait_LTC3225 | start_9603 | zzz | wake

record state =
  seconds_count :: "32 word"
  interval_alarm :: bool
  iterationCounter :: "32 word"
  vbat :: real
  latitude :: real
  longitude :: real
  altitude :: int
  speed :: real
  satellites :: "8 word"
  course :: int
  pdop :: int
  year :: int
  month :: "8 word"
  day :: "8 word"
  hour :: "8 word"
  minute :: "8 word"
  second :: "8 word"
  milliseconds :: int
  pascals :: real
  tempC :: real
  fixType :: "8 word"
  PGOOD :: bool
  err :: int
  loop_step :: step
  millis :: "32 word"
  pins :: pins
  pin_trace :: "pins list"
  calls :: "call list"

definition INTERVAL :: "32 word" where
  "INTERVAL = 15 * 60"

definition VBAT_LOW :: real where
  "VBAT_LOW = 2.8"

definition GNSS_timeout :: "32 word" where
  "GNSS_timeout = 5"

definition CHG_timeout :: "32 word" where
  "CHG_timeout = 2"

definition TOPUP_timeout :: "32 word" where
  "TOPUP_timeout = 10"

subsection \<open>The Arduino primitives\<close>

definition digitalWrite :: "pin \<Rightarrow> level \<Rightarrow> state \<Rightarrow> state" where
  "digitalWrite p v s =
     (let ps = (pins s)\<lparr>level := (level (pins s))(p := v)\<rparr>
      in s\<lparr>pins := ps, pin_trace := ps # pin_trace s\<rparr>)"

definition pinMode :: "pin \<Rightarrow> pinmode \<Rightarrow> state \<Rightarrow> state" where
  "pinMode p m s =
     (let ps = (pins s)\<lparr>mode := (mode (pins s))(p := m)\<rparr>
      in s\<lparr>pins := ps, pin_trace := ps # pin_trace s\<rparr>)"

definition delay :: "nat \<Rightarrow> state \<Rightarrow> state" where
  "delay ms s = s\<lparr>millis := millis s + of_nat ms\<rparr>"

definition idx :: "state \<Rightarrow> nat" where
  "idx s = length (calls s)"

definition called :: "call \<Rightarrow> state \<Rightarrow> state" where
  "called c s = s\<lparr>calls := c # calls s\<rparr>"

text \<open>
  A call to the modem library: logged; the library owns the ON/OFF pin of the modem
  (line 79) and leaves it at a level of its choice.
\<close>

definition modem_called :: "env \<Rightarrow> call \<Rightarrow> state \<Rightarrow> state" where
  "modem_called e c s = digitalWrite iridiumSleep (modem_pin_in e (idx s)) (called c s)"

subsection \<open>The alarm handler (lines 192 to 206)\<close>

definition am_rtc_isr :: "state \<Rightarrow> state" where
  "am_rtc_isr s =
     (let s1 = s\<lparr>seconds_count := seconds_count s + 1\<rparr>
      in if seconds_count s1 \<ge> INTERVAL
         then s1\<lparr>interval_alarm := True, seconds_count := 0\<rparr>
         else s1)"

subsection \<open>The bus voltage (lines 215 to 222)\<close>

definition get_vbat :: "env \<Rightarrow> state \<Rightarrow> state" where
  "get_vbat e s =
     (let s1 = digitalWrite busVoltageMonEN HIGH s;
          s2 = delay 1 s1;
          s3 = (called (AnalogRead busVoltagePin) s2)
                 \<lparr>vbat := real (analog_in e (idx s2)) * 3.0 * 1.09 * 2.0 / 16384.0\<rparr>
      in digitalWrite busVoltageMonEN LOW s3)"

text \<open>The callback of the modem library (lines 225 to 249); the LED is not disabled.\<close>

definition flash_LED :: "nat \<Rightarrow> state \<Rightarrow> state" where
  "flash_LED period s =
     (if (unat (millis s) div period) mod 2 = 1
      then digitalWrite LED HIGH s
      else digitalWrite LED LOW s)"

definition ISBDCallback :: "env \<Rightarrow> state \<Rightarrow> bool \<times> state" where
  "ISBDCallback e s =
     (let s1 = get_vbat e (flash_LED 250 s)
      in if vbat s1 < VBAT_LOW then (False, s1) else (True, s1))"

subsection \<open>Power for the receiver (lines 251 to 261)\<close>

definition gnssON :: "state \<Rightarrow> state" where
  "gnssON s = pinMode gnssEN OUTPUT (digitalWrite gnssEN LOW s)"

definition gnssOFF :: "state \<Rightarrow> state" where
  "gnssOFF s = digitalWrite gnssEN HIGH (pinMode gnssEN INPUT_PULLUP s)"

subsection \<open>Power on and \<^verbatim>\<open>setup\<close> (lines 95 to 157 and 263 to 295)\<close>

text \<open>
  The globals with their initialisers, over the pin configuration \<open>p0\<close> that the reset
  leaves; \<^verbatim>\<open>err\<close> has no initialiser and is zero as every global without one.
\<close>

definition power_on :: "pins \<Rightarrow> state" where
  "power_on p0 =
     \<lparr>seconds_count = 0, interval_alarm = False, iterationCounter = 0, vbat = 5.0,
      latitude = 0.0, longitude = 0.0, altitude = 0, speed = 0.0, satellites = 0,
      course = 0, pdop = 0, year = 1970, month = 1, day = 1, hour = 0, minute = 0,
      second = 0, milliseconds = 0, pascals = 0.0, tempC = 0.0, fixType = 0,
      PGOOD = False, err = 0, loop_step = loop_init, millis = 0, pins = p0,
      pin_trace = [], calls = []\<rparr>"

definition setup_sketch :: "state \<Rightarrow> state" where
  "setup_sketch s0 =
     (let s = pinMode LED OUTPUT s0;
          s = gnssOFF s;
          s = pinMode geofencePin INPUT s;
          s = pinMode iridiumPwrEN OUTPUT s;
          s = digitalWrite iridiumPwrEN LOW s;
          s = pinMode superCapChgEN OUTPUT s;
          s = digitalWrite superCapChgEN LOW s;
          s = pinMode iridiumSleep OUTPUT s;
          s = digitalWrite iridiumSleep LOW s;
          s = pinMode iridiumRI INPUT s;
          s = pinMode iridiumNA INPUT s;
          s = pinMode superCapPGOOD INPUT s;
          s = pinMode busVoltageMonEN OUTPUT s;
          s = digitalWrite busVoltageMonEN LOW s
      in s\<lparr>iterationCounter := 0, loop_step := loop_init, seconds_count := 0,
            interval_alarm := False\<rparr>)"

subsection \<open>Case \<^verbatim>\<open>loop_init\<close> (lines 304 to 335)\<close>

definition case_loop_init :: "env \<Rightarrow> state \<Rightarrow> state" where
  "case_loop_init e s0 =
     (let s = called Serial_begin s0;
          s = delay 1000 s;
          s = modem_called e Modem_setPowerProfile s;
          s = get_vbat e s
      in if vbat s < VBAT_LOW then s\<lparr>loop_step := zzz\<rparr>
         else s\<lparr>loop_step := start_GPS\<rparr>)"

subsection \<open>Case \<^verbatim>\<open>start_GPS\<close> (lines 339 to 411)\<close>

text \<open>The default values of the fix (lines 368 to 381, and again 488 to 501).\<close>

definition fix_defaults :: "state \<Rightarrow> state" where
  "fix_defaults s =
     s\<lparr>latitude := 0.0, longitude := 0.0, altitude := 0, speed := 0.0, satellites := 0,
       course := 0, pdop := 0, year := 1970, month := 1, day := 1, hour := 0,
       minute := 0, second := 0, milliseconds := 0\<rparr>"

text \<open>Powering the receiver and measuring the voltage under its load (lines 341 to 348).\<close>

definition start_GPS_power_up :: "env \<Rightarrow> state \<Rightarrow> state" where
  "start_GPS_power_up e s0 =
     (let s = called Wire1_begin s0;
          s = gnssON s;
          s = delay 2000 s;
          s = get_vbat e s
      in s)"

definition case_start_GPS :: "env \<Rightarrow> state \<Rightarrow> state" where
  "case_start_GPS e s0 =
     (let s = start_GPS_power_up e s0
      in if vbat s < VBAT_LOW then (gnssOFF s)\<lparr>loop_step := zzz\<rparr>
         else
           let began = bool_in e (idx s);
               s = called GPS_begin s
           in if began = False
              then (gnssOFF (fix_defaults s))\<lparr>loop_step := read_pressure\<rparr>
              else
                let s = called GPS_setI2COutput s;
                    s = called GPS_setDynamicModel s
                in s\<lparr>loop_step := read_GPS\<rparr>)"

subsection \<open>Case \<^verbatim>\<open>read_GPS\<close> (lines 415 to 513)\<close>

text \<open>
  One pass of the body of the wait loop up to the voltage check (lines 425 to 432), and
  the rest of the body (lines 434 to 444).
\<close>

definition fix_poll :: "env \<Rightarrow> state \<Rightarrow> state" where
  "fix_poll e s = get_vbat e ((called GPS_getFixType s)\<lparr>fixType := byte_in e (idx s)\<rparr>)"

definition fix_pause :: "state \<Rightarrow> state" where
  "fix_pause s = delay 100 (flash_LED 1000 s)"

function gnss_fix_wait :: "env \<Rightarrow> 32 word \<Rightarrow> state \<Rightarrow> state" where
  "gnss_fix_wait e tnow s =
     (if fixType s \<noteq> 3 \<and> millis s - tnow < GNSS_timeout * 60 * 1000
      then if vbat (fix_poll e s) < VBAT_LOW then fix_poll e s
           else gnss_fix_wait e tnow (fix_pause (fix_poll e s))
      else s)"
  by pat_completeness auto
termination
proof (relation "measure (\<lambda>(e, tnow, s). 300000 - unat (millis s - tnow))")
  show "wf (measure (\<lambda>(e, tnow, s). 300000 - unat (millis s - tnow)))"
    by simp
next
  fix e :: env and tnow :: "32 word" and s :: state
  assume c: "fixType s \<noteq> 3 \<and> millis s - tnow < GNSS_timeout * 60 * 1000"
  then have lt: "unat (millis s - tnow) < 300000"
    by (simp add: GNSS_timeout_def word_less_nat_alt)
  have m: "millis (fix_pause (fix_poll e s)) = millis s + 101"
    by (simp add: fix_pause_def fix_poll_def get_vbat_def flash_LED_def digitalWrite_def
        delay_def called_def Let_def)
  have "unat (millis s + 101 - tnow) = unat (millis s - tnow) + 101"
  proof -
    have "millis s + 101 - tnow = (millis s - tnow) + 101"
      by simp
    moreover have "unat ((millis s - tnow) + 101) = unat (millis s - tnow) + 101"
      using lt by (simp add: unat_word_ariths)
    ultimately show ?thesis
      by (simp only:)
  qed
  with lt m
  show "((e, tnow, fix_pause (fix_poll e s)), (e, tnow, s))
          \<in> measure (\<lambda>(e, tnow, s). 300000 - unat (millis s - tnow))"
    by simp
qed

declare gnss_fix_wait.simps [simp del]

text \<open>Division of C++ on signed integers truncates towards zero.\<close>

definition cdiv :: "int \<Rightarrow> int \<Rightarrow> int" where
  "cdiv a b = sgn a * sgn b * (\<bar>a\<bar> div \<bar>b\<bar>)"

text \<open>Reading the fix (lines 461 to 474): the time first, then the position.\<close>

definition read_fix :: "env \<Rightarrow> state \<Rightarrow> state" where
  "read_fix e s0 =
     (let s = (called GPS_getMillisecond s0)\<lparr>milliseconds := int_in e (idx s0)\<rparr>;
          s = (called GPS_getSecond s)\<lparr>second := byte_in e (idx s)\<rparr>;
          s = (called GPS_getMinute s)\<lparr>minute := byte_in e (idx s)\<rparr>;
          s = (called GPS_getHour s)\<lparr>hour := byte_in e (idx s)\<rparr>;
          s = (called GPS_getDay s)\<lparr>day := byte_in e (idx s)\<rparr>;
          s = (called GPS_getMonth s)\<lparr>month := byte_in e (idx s)\<rparr>;
          s = (called GPS_getYear s)\<lparr>year := int_in e (idx s)\<rparr>;
          s = (called GPS_getLatitude s)\<lparr>latitude := real_of_int (int_in e (idx s)) / 10000000.0\<rparr>;
          s = (called GPS_getLongitude s)\<lparr>longitude := real_of_int (int_in e (idx s)) / 10000000.0\<rparr>;
          s = (called GPS_getAltitudeMSL s)\<lparr>altitude := cdiv (int_in e (idx s)) 1000\<rparr>;
          s = (called GPS_getGroundSpeed s)\<lparr>speed := real_of_int (int_in e (idx s)) / 1000.0\<rparr>;
          s = (called GPS_getSIV s)\<lparr>satellites := byte_in e (idx s)\<rparr>;
          s = (called GPS_getHeading s)\<lparr>course := cdiv (int_in e (idx s)) 10000000\<rparr>;
          s = (called GPS_getPDOP s)\<lparr>pdop := cdiv (int_in e (idx s)) 100\<rparr>
      in s)"

text \<open>What follows the wait loop (lines 448 to 511).\<close>

definition read_GPS_finish :: "env \<Rightarrow> state \<Rightarrow> state" where
  "read_GPS_finish e s =
     gnssOFF
       (if vbat s < VBAT_LOW then s\<lparr>loop_step := zzz\<rparr>
        else if fixType s = 3 then (read_fix e s)\<lparr>loop_step := read_pressure\<rparr>
        else (fix_defaults s)\<lparr>loop_step := read_pressure\<rparr>)"

definition case_read_GPS :: "env \<Rightarrow> state \<Rightarrow> state" where
  "case_read_GPS e s0 =
     (let s = s0\<lparr>fixType := 0\<rparr>;
          tnow = millis s
      in read_GPS_finish e (gnss_fix_wait e tnow s))"

subsection \<open>Case \<^verbatim>\<open>read_pressure\<close> (lines 517 to 558)\<close>

definition case_read_pressure :: "env \<Rightarrow> state \<Rightarrow> state" where
  "case_read_pressure e s0 =
     (let barometricSensorOK = bool_in e (idx s0);
          s = called Sensor_begin s0;
          (barometricSensorOK, s) =
            (if barometricSensorOK = False
             then (bool_in e (idx s), called Sensor_begin s)
             else (barometricSensorOK, s));
          s = (if barometricSensorOK = False
               then s\<lparr>pascals := 0.0, tempC := 0.0\<rparr>
               else
                 let s = (called Sensor_getTemperature s)\<lparr>tempC := real_in e (idx s)\<rparr>;
                     s = (called Sensor_getPressure s)\<lparr>pascals := real_in e (idx s) * 100.0\<rparr>
                 in s)
      in s\<lparr>loop_step := start_LTC3225\<rparr>)"

subsection \<open>Case \<^verbatim>\<open>start_LTC3225\<close> (lines 562 to 625)\<close>

definition chg_poll :: "env \<Rightarrow> state \<Rightarrow> state" where
  "chg_poll e s =
     get_vbat e ((called (DigitalRead superCapPGOOD) s)\<lparr>PGOOD := digital_in e (idx s)\<rparr>)"

definition chg_pause :: "state \<Rightarrow> state" where
  "chg_pause s = delay 100 (flash_LED 500 s)"

function chg_wait :: "env \<Rightarrow> 32 word \<Rightarrow> state \<Rightarrow> state" where
  "chg_wait e tnow s =
     (if \<not> PGOOD s \<and> millis s - tnow < CHG_timeout * 60 * 1000
      then if vbat (chg_poll e s) < VBAT_LOW then chg_poll e s
           else chg_wait e tnow (chg_pause (chg_poll e s))
      else s)"
  by pat_completeness auto
termination
proof (relation "measure (\<lambda>(e, tnow, s). 300000 - unat (millis s - tnow))")
  show "wf (measure (\<lambda>(e, tnow, s). 300000 - unat (millis s - tnow)))"
    by simp
next
  fix e :: env and tnow :: "32 word" and s :: state
  assume c: "\<not> PGOOD s \<and> millis s - tnow < CHG_timeout * 60 * 1000"
  then have lt: "unat (millis s - tnow) < 300000"
    by (simp add: CHG_timeout_def word_less_nat_alt)
  have m: "millis (chg_pause (chg_poll e s)) = millis s + 101"
    by (simp add: chg_pause_def chg_poll_def get_vbat_def flash_LED_def digitalWrite_def
        delay_def called_def Let_def)
  have "unat (millis s + 101 - tnow) = unat (millis s - tnow) + 101"
  proof -
    have "millis s + 101 - tnow = (millis s - tnow) + 101"
      by simp
    moreover have "unat ((millis s - tnow) + 101) = unat (millis s - tnow) + 101"
      using lt by (simp add: unat_word_ariths)
    ultimately show ?thesis
      by (simp only:)
  qed
  with lt m
  show "((e, tnow, chg_pause (chg_poll e s)), (e, tnow, s))
          \<in> measure (\<lambda>(e, tnow, s). 300000 - unat (millis s - tnow))"
    by simp
qed

declare chg_wait.simps [simp del]

definition start_LTC3225_finish :: "state \<Rightarrow> state" where
  "start_LTC3225_finish s =
     (if vbat s < VBAT_LOW then s\<lparr>loop_step := zzz\<rparr>
      else if PGOOD s then s\<lparr>loop_step := wait_LTC3225\<rparr>
      else s\<lparr>loop_step := zzz\<rparr>)"

text \<open>Enabling the charger (lines 564 to 571).\<close>

definition start_LTC3225_enable :: "state \<Rightarrow> state" where
  "start_LTC3225_enable s0 =
     (let s = digitalWrite superCapChgEN HIGH s0;
          s = delay 2000 s;
          s = s\<lparr>PGOOD := False\<rparr>
      in s)"

definition case_start_LTC3225 :: "env \<Rightarrow> state \<Rightarrow> state" where
  "case_start_LTC3225 e s0 =
     (let s = start_LTC3225_enable s0;
          tnow = millis s
      in start_LTC3225_finish (chg_wait e tnow s))"

subsection \<open>Case \<^verbatim>\<open>wait_LTC3225\<close> (lines 629 to 683)\<close>

function topup_wait :: "env \<Rightarrow> 32 word \<Rightarrow> state \<Rightarrow> state" where
  "topup_wait e tnow s =
     (if millis s - tnow < TOPUP_timeout * 1000
      then if vbat (get_vbat e s) < VBAT_LOW then get_vbat e s
           else topup_wait e tnow (chg_pause (get_vbat e s))
      else s)"
  by pat_completeness auto
termination
proof (relation "measure (\<lambda>(e, tnow, s). 300000 - unat (millis s - tnow))")
  show "wf (measure (\<lambda>(e, tnow, s). 300000 - unat (millis s - tnow)))"
    by simp
next
  fix e :: env and tnow :: "32 word" and s :: state
  assume c: "millis s - tnow < TOPUP_timeout * 1000"
  then have lt: "unat (millis s - tnow) < 300000"
    by (simp add: TOPUP_timeout_def word_less_nat_alt)
  have m: "millis (chg_pause (get_vbat e s)) = millis s + 101"
    by (simp add: chg_pause_def get_vbat_def flash_LED_def digitalWrite_def
        delay_def called_def Let_def)
  have "unat (millis s + 101 - tnow) = unat (millis s - tnow) + 101"
  proof -
    have "millis s + 101 - tnow = (millis s - tnow) + 101"
      by simp
    moreover have "unat ((millis s - tnow) + 101) = unat (millis s - tnow) + 101"
      using lt by (simp add: unat_word_ariths)
    ultimately show ?thesis
      by (simp only:)
  qed
  with lt m
  show "((e, tnow, chg_pause (get_vbat e s)), (e, tnow, s))
          \<in> measure (\<lambda>(e, tnow, s). 300000 - unat (millis s - tnow))"
    by simp
qed

declare topup_wait.simps [simp del]

definition wait_LTC3225_finish :: "state \<Rightarrow> state" where
  "wait_LTC3225_finish s =
     (if vbat s < VBAT_LOW then s\<lparr>loop_step := zzz\<rparr>
      else if PGOOD s then s\<lparr>loop_step := start_9603\<rparr>
      else s\<lparr>loop_step := zzz\<rparr>)"

definition case_wait_LTC3225 :: "env \<Rightarrow> state \<Rightarrow> state" where
  "case_wait_LTC3225 e s =
     (let tnow = millis s
      in wait_LTC3225_finish (topup_wait e tnow s))"

subsection \<open>Case \<^verbatim>\<open>start_9603\<close> (lines 687 to 804)\<close>

text \<open>A call to the modem library that returns a status, stored in \<^verbatim>\<open>err\<close>.\<close>

definition modem_status :: "env \<Rightarrow> call \<Rightarrow> state \<Rightarrow> state" where
  "modem_status e c s = (modem_called e c s)\<lparr>err := int_in e (idx s)\<rparr>"

text \<open>
  While it sends, the library calls \<^verbatim>\<open>ISBDCallback\<close> now and then, and gives up when
  the callback returns false (lines 244 and 749).
\<close>

fun isbd_polls :: "env \<Rightarrow> nat \<Rightarrow> state \<Rightarrow> state" where
  "isbd_polls e 0 s = s"
| "isbd_polls e (Suc n) s =
     (case ISBDCallback e s of
        (True, s1) \<Rightarrow> isbd_polls e n s1
      | (False, s1) \<Rightarrow> s1)"

definition sendSBDText :: "env \<Rightarrow> state \<Rightarrow> state" where
  "sendSBDText e s =
     (isbd_polls e (polls_in e (idx s)) (modem_called e Modem_sendSBDText s))
       \<lparr>err := int_in e (idx s)\<rparr>"

text \<open>The flashes after a message that was sent (lines 769 to 775).\<close>

fun flash_sent :: "nat \<Rightarrow> state \<Rightarrow> state" where
  "flash_sent 0 s = s"
| "flash_sent (Suc n) s =
     flash_sent n (delay 100 (digitalWrite LED LOW (delay 100 (digitalWrite LED HIGH s))))"

text \<open>Powering the modem and starting it (lines 690 to 706).\<close>

definition start_9603_power_up :: "env \<Rightarrow> state \<Rightarrow> state" where
  "start_9603_power_up e s0 =
     (let s = digitalWrite iridiumPwrEN HIGH s0;
          s = delay 1000 s;
          s = called IridiumSerial_begin s;
          s = delay 1000 s;
          s = modem_called e Modem_setPowerProfile s;
          s = modem_status e Modem_begin s
      in s)"

definition case_start_9603 :: "env \<Rightarrow> state \<Rightarrow> state" where
  "case_start_9603 e s0 =
     (let s = start_9603_power_up e s0
      in if err s \<noteq> isbd_success e then s\<lparr>loop_step := zzz\<rparr>
         else
           let s = sendSBDText e s;
               s = (if err s \<noteq> isbd_success e then digitalWrite LED HIGH s
                    else flash_sent 10 s);
               s = modem_status e Modem_clearBuffers s;
               s = modem_status e Modem_sleep s;
               s = s\<lparr>iterationCounter := iterationCounter s + 1\<rparr>
           in s\<lparr>loop_step := zzz\<rparr>)"

subsection \<open>Case \<^verbatim>\<open>zzz\<close> (lines 808 to 879)\<close>

text \<open>Turning everything off (lines 812 to 840).\<close>

definition zzz_power_down :: "state \<Rightarrow> state" where
  "zzz_power_down s0 =
     (let s = gnssOFF s0;
          s = digitalWrite iridiumSleep LOW s;
          s = delay 1000 s;
          s = digitalWrite iridiumPwrEN LOW s;
          s = delay 1000 s;
          s = digitalWrite superCapChgEN LOW s;
          s = called IridiumSerial_end s;
          s = called Wire1_end s;
          s = digitalWrite busVoltageMonEN LOW s;
          s = digitalWrite LED LOW s;
          s = called Serial_flush s;
          s = called Serial_end s
      in s)"

text \<open>
  One deep sleep (line 871): the processor stops until an interrupt wakes it. When the
  interrupt is the alarm of the clock, the handler has run before the call returns.
\<close>

definition deep_sleep :: "env \<Rightarrow> state \<Rightarrow> state" where
  "deep_sleep e s =
     (if wake_in e (idx s) then am_rtc_isr (called Deep_sleep s)
      else called Deep_sleep s)"

text \<open>The loop of lines 868 to 872; it need not end.\<close>

partial_function (option) sleep_until_alarm :: "env \<Rightarrow> state \<Rightarrow> state option" where
  "sleep_until_alarm e s =
     (if \<not> interval_alarm s then sleep_until_alarm e (deep_sleep e s) else Some s)"

definition case_zzz :: "env \<Rightarrow> state \<Rightarrow> state option" where
  "case_zzz e s =
     (case sleep_until_alarm e (zzz_power_down s) of
        None \<Rightarrow> None
      | Some s1 \<Rightarrow> Some (s1\<lparr>interval_alarm := False, loop_step := wake\<rparr>))"

subsection \<open>Case \<^verbatim>\<open>wake\<close> (lines 883 to 909)\<close>

definition case_wake :: "state \<Rightarrow> state" where
  "case_wake s = s\<lparr>loop_step := loop_init\<rparr>"

subsection \<open>The loop (lines 297 to 912)\<close>

definition loop :: "env \<Rightarrow> state \<Rightarrow> state option" where
  "loop e s =
     (case loop_step s of
        loop_init \<Rightarrow> Some (case_loop_init e s)
      | start_GPS \<Rightarrow> Some (case_start_GPS e s)
      | read_GPS \<Rightarrow> Some (case_read_GPS e s)
      | read_pressure \<Rightarrow> Some (case_read_pressure e s)
      | start_LTC3225 \<Rightarrow> Some (case_start_LTC3225 e s)
      | wait_LTC3225 \<Rightarrow> Some (case_wait_LTC3225 e s)
      | start_9603 \<Rightarrow> Some (case_start_9603 e s)
      | zzz \<Rightarrow> case_zzz e s
      | wake \<Rightarrow> Some (case_wake s))"

subsection \<open>The states the sketch can reach\<close>

text \<open>
  The sketch starts with \<^verbatim>\<open>setup\<close> after power on, then runs \<^verbatim>\<open>loop\<close> again and
  again; the alarm handler can run between any two steps (it touches only
  \<^verbatim>\<open>seconds_count\<close> and \<^verbatim>\<open>interval_alarm\<close>, which no step but \<^verbatim>\<open>zzz\<close> reads). For
  the states of the loop, the record of pin configurations starts empty at the first
  run of \<^verbatim>\<open>loop\<close>: it holds the configurations passed through since \<^verbatim>\<open>setup\<close> returned.
\<close>

inductive reachable :: "env \<Rightarrow> pins \<Rightarrow> state \<Rightarrow> bool" for e :: env and p0 :: pins where
  boot: "reachable e p0 ((setup_sketch (power_on p0))\<lparr>pin_trace := []\<rparr>)"
| step: "reachable e p0 s \<Longrightarrow> loop e s = Some s' \<Longrightarrow> reachable e p0 s'"
| tick: "reachable e p0 s \<Longrightarrow> reachable e p0 (am_rtc_isr s)"

subsection \<open>Pin configurations\<close>

text \<open>
  Whether a pin configuration powers the receiver (the pin drives low), and whether it
  powers the modem (the pin drives high); line 66 warns against both at once.
\<close>

definition gnss_enabled :: "pins \<Rightarrow> bool" where
  "gnss_enabled p = (mode p gnssEN = OUTPUT \<and> level p gnssEN = LOW)"

definition iridium_enabled :: "pins \<Rightarrow> bool" where
  "iridium_enabled p = (mode p iridiumPwrEN = OUTPUT \<and> level p iridiumPwrEN = HIGH)"

definition rf_safe :: "pins \<Rightarrow> bool" where
  "rf_safe p = (\<not> (gnss_enabled p \<and> iridium_enabled p))"

text \<open>
  The configuration in which \<^verbatim>\<open>gnssOFF\<close> and the writes of case \<^verbatim>\<open>zzz\<close> leave the
  power pins.
\<close>

definition power_domains_off :: "pins \<Rightarrow> bool" where
  "power_domains_off p =
     (mode p gnssEN = INPUT_PULLUP \<and> level p gnssEN = HIGH \<and> level p iridiumPwrEN = LOW
      \<and> level p iridiumSleep = LOW \<and> level p superCapChgEN = LOW
      \<and> level p busVoltageMonEN = LOW)"

text \<open>
  A state in which the power domain \<open>d\<close> is off and every recorded configuration is
  safe; the invariant of the loop: the receiver is powered only on the way into
  \<^verbatim>\<open>read_GPS\<close>, the modem only on the way into \<^verbatim>\<open>zzz\<close>.
\<close>

definition domain_off :: "(pins \<Rightarrow> bool) \<Rightarrow> state \<Rightarrow> bool" where
  "domain_off d s = (list_all rf_safe (pin_trace s) \<and> \<not> d (pins s))"

definition both_off :: "state \<Rightarrow> bool" where
  "both_off s = (domain_off gnss_enabled s \<and> domain_off iridium_enabled s)"

definition power_inv :: "state \<Rightarrow> bool" where
  "power_inv s =
     (list_all rf_safe (pin_trace s)
      \<and> (gnss_enabled (pins s) \<longrightarrow> loop_step s = read_GPS)
      \<and> (iridium_enabled (pins s) \<longrightarrow> loop_step s = zzz))"

text \<open>The projection of the state on the fix.\<close>

definition fix_of ::
  "state \<Rightarrow> real \<times> real \<times> int \<times> real \<times> 8 word \<times> int \<times> int \<times> int \<times> 8 word \<times> 8 word \<times> 8 word \<times> 8 word \<times> 8 word \<times> int" where
  "fix_of s =
     (latitude s, longitude s, altitude s, speed s, satellites s, course s, pdop s,
      year s, month s, day s, hour s, minute s, second s, milliseconds s)"

subsection \<open>Example inputs\<close>

text \<open>
  All pads as inputs with their latches low, and the state in which \<^verbatim>\<open>loop\<close> runs for
  the first time from there.
\<close>

definition reset_pins :: pins where
  "reset_pins = \<lparr>mode = (\<lambda>_. INPUT), level = (\<lambda>_. LOW)\<rparr>"

definition booted :: state where
  "booted = (setup_sketch (power_on reset_pins))\<lparr>pin_trace := []\<rparr>"

text \<open>
  A world in which everything works: 3.99 V on the bus, a 3D fix at once, PGOOD
  high, every driver call a success, every wake-up the alarm.
\<close>

definition env_good :: env where
  "env_good =
     \<lparr>analog_in = (\<lambda>_. 10000), digital_in = (\<lambda>_. True), bool_in = (\<lambda>_. True),
      byte_in = (\<lambda>_. 3), int_in = (\<lambda>_. 0), real_in = (\<lambda>_. 15.5), polls_in = (\<lambda>_. 1),
      modem_pin_in = (\<lambda>_. HIGH), wake_in = (\<lambda>_. True), isbd_success = 0\<rparr>"

text \<open>
  A world with a healthy battery in which no device answers: the drivers' \<^verbatim>\<open>begin\<close>
  fail, the modem returns an error, PGOOD reads low, and the first wake-up is not the
  alarm.
\<close>

definition env_no_devices :: env where
  "env_no_devices =
     \<lparr>analog_in = (\<lambda>_. 10000), digital_in = (\<lambda>_. False), bool_in = (\<lambda>_. False),
      byte_in = (\<lambda>_. 0), int_in = (\<lambda>_. 1), real_in = (\<lambda>_. 0), polls_in = (\<lambda>_. 0),
      modem_pin_in = (\<lambda>_. LOW), wake_in = (\<lambda>n. n \<noteq> 0), isbd_success = 0\<rparr>"

text \<open>A world with 2.00 V on the bus, a 3D fix at once and PGOOD high.\<close>

definition env_low_battery :: env where
  "env_low_battery =
     \<lparr>analog_in = (\<lambda>_. 5000), digital_in = (\<lambda>_. True), bool_in = (\<lambda>_. True),
      byte_in = (\<lambda>_. 3), int_in = (\<lambda>_. 0), real_in = (\<lambda>_. 15.5), polls_in = (\<lambda>_. 1),
      modem_pin_in = (\<lambda>_. HIGH), wake_in = (\<lambda>_. True), isbd_success = 0\<rparr>"

text \<open>
  The state in which case \<^verbatim>\<open>start_LTC3225\<close> hands over to case \<^verbatim>\<open>wait_LTC3225\<close>
  (PGOOD was read high), and a state on entry to case \<^verbatim>\<open>start_9603\<close> after seven
  transmissions.
\<close>

definition topup_entry :: state where
  "topup_entry = booted\<lparr>PGOOD := True, loop_step := wait_LTC3225\<rparr>"

definition tx_entry :: state where
  "tx_entry = booted\<lparr>iterationCounter := 7, loop_step := start_9603\<rparr>"

text \<open>A state on entry to case \<^verbatim>\<open>zzz\<close> with every power domain on and the alarm set.\<close>

definition all_on :: state where
  "all_on =
     (digitalWrite busVoltageMonEN HIGH (digitalWrite iridiumPwrEN HIGH
        (digitalWrite iridiumSleep HIGH (digitalWrite superCapChgEN HIGH (gnssON booted)))))
       \<lparr>interval_alarm := True, loop_step := zzz\<rparr>"

section \<open>Properties\<close>

subsection \<open>The alarm handler and the wait for the alarm\<close>

lemmas prim_defs = digitalWrite_def pinMode_def delay_def idx_def called_def modem_called_def
  gnssON_def gnssOFF_def get_vbat_def

lemmas world_defs = booted_def setup_sketch_def power_on_def reset_pins_def env_good_def
  env_no_devices_def env_low_battery_def topup_entry_def tx_entry_def VBAT_LOW_def




subsection \<open>Devices that do not answer\<close>

text \<open>
  Claim C6. In case \<^verbatim>\<open>start_GPS\<close>, when the voltage is not low and the receiver's
  \<^verbatim>\<open>begin\<close> fails, the step ends with every field of the fix at its default (position,
  altitude, speed, satellites, course and PDOP zero, the date 1970-01-01, the time
  00:00:00.000), with the receiver's power off, and with \<^verbatim>\<open>read_pressure\<close> as the
  next step.
\<close>

theorem handshake_failure_gives_default_fix:
  assumes "loop_step s = start_GPS"
    and "\<not> vbat (start_GPS_power_up e s) < VBAT_LOW"
    and "bool_in e (idx (start_GPS_power_up e s)) = False"
  shows "\<exists>s'. loop e s = Some s'
           \<and> fix_of s' = (0.0, 0.0, 0, 0.0, 0, 0, 0, 1970, 1, 1, 0, 0, 0, 0)
           \<and> calls s' = GPS_begin # calls (start_GPS_power_up e s)
           \<and> mode (pins s') gnssEN = INPUT_PULLUP \<and> level (pins s') gnssEN = HIGH
           \<and> \<not> gnss_enabled (pins s')
           \<and> loop_step s' = read_pressure"
  using assms
  by (simp add: loop_def case_start_GPS_def Let_def fix_of_def fix_defaults_def gnssOFF_def
      pinMode_def digitalWrite_def called_def gnss_enabled_def)

theorem handshake_failure_gives_default_fix_witness:
  "loop_step (booted\<lparr>loop_step := start_GPS\<rparr>) = start_GPS
   \<and> \<not> vbat (start_GPS_power_up env_no_devices (booted\<lparr>loop_step := start_GPS\<rparr>)) < VBAT_LOW
   \<and> bool_in env_no_devices
        (idx (start_GPS_power_up env_no_devices (booted\<lparr>loop_step := start_GPS\<rparr>))) = False
   \<and> (\<exists>s'. loop env_no_devices (booted\<lparr>loop_step := start_GPS\<rparr>) = Some s'
          \<and> fix_of s' = (0.0, 0.0, 0, 0.0, 0, 0, 0, 1970, 1, 1, 0, 0, 0, 0)
          \<and> \<not> gnss_enabled (pins s')
          \<and> loop_step s' = read_pressure)"
proof -
  let ?s = "booted\<lparr>loop_step := start_GPS\<rparr>"
  have h1: "loop_step ?s = start_GPS"
    by simp
  have h2: "\<not> vbat (start_GPS_power_up env_no_devices ?s) < VBAT_LOW"
    by (simp add: start_GPS_power_up_def world_defs prim_defs Let_def)
  have h3: "bool_in env_no_devices (idx (start_GPS_power_up env_no_devices ?s)) = False"
    by (simp add: env_no_devices_def)
  show ?thesis
    using handshake_failure_gives_default_fix [OF h1 h2 h3] h1 h2 h3 by blast
qed



subsection \<open>The transmission counter\<close>

lemma iterationCounter_prims [simp]:
  "iterationCounter (digitalWrite p v s) = iterationCounter s"
  "iterationCounter (pinMode p m s) = iterationCounter s"
  "iterationCounter (delay n s) = iterationCounter s"
  "iterationCounter (called c s) = iterationCounter s"
  "iterationCounter (get_vbat e s) = iterationCounter s"
  "iterationCounter (modem_called e c s) = iterationCounter s"
  "iterationCounter (modem_status e c s) = iterationCounter s"
  "iterationCounter (flash_LED k s) = iterationCounter s"
  "iterationCounter (gnssOFF s) = iterationCounter s"
  "iterationCounter (gnssON s) = iterationCounter s"
  by (simp_all add: prim_defs modem_status_def flash_LED_def Let_def)


lemma iterationCounter_isbd_polls [simp]: "iterationCounter (isbd_polls e n s) = iterationCounter s"
  by (induction n arbitrary: s) (simp_all add: ISBDCallback_def Let_def)

lemma iterationCounter_flash_sent [simp]: "iterationCounter (flash_sent n s) = iterationCounter s"
  by (induction n arbitrary: s) simp_all

lemma iterationCounter_power_up [simp]:
  "iterationCounter (start_9603_power_up e s) = iterationCounter s"
  by (simp add: start_9603_power_up_def Let_def)

lemma iterationCounter_start_9603:
  "iterationCounter (case_start_9603 e s) =
     (if err (start_9603_power_up e s) = isbd_success e then iterationCounter s + 1
      else iterationCounter s)"
  by (simp add: case_start_9603_def Let_def sendSBDText_def)

lemma loop_step_start_9603: "loop_step (case_start_9603 e s) = zzz"
  by (simp add: case_start_9603_def Let_def)

lemma gnss_fix_wait_preserves:
  assumes "\<And>s. P s \<Longrightarrow> P (fix_poll e s)"
    and "\<And>s. P s \<Longrightarrow> P (fix_pause s)"
    and "P s"
  shows "P (gnss_fix_wait e tnow s)"
  using assms
proof (induction e tnow s rule: gnss_fix_wait.induct)
  case (1 e tnow s)
  note poll = "1.prems"(1) and pause = "1.prems"(2) and init = "1.prems"(3)
  show ?case
  proof (cases "fixType s \<noteq> 3 \<and> millis s - tnow < GNSS_timeout * 60 * 1000")
    case False
    then have "gnss_fix_wait e tnow s = s"
      by (subst gnss_fix_wait.simps) (simp only: if_False)
    with init show ?thesis
      by (simp only:)
  next
    case c: True
    have polled: "P (fix_poll e s)"
      using init by (rule poll)
    show ?thesis
    proof (cases "vbat (fix_poll e s) < VBAT_LOW")
      case True
      with c have "gnss_fix_wait e tnow s = fix_poll e s"
        by (subst gnss_fix_wait.simps) simp
      with polled show ?thesis
        by (simp only:)
    next
      case False
      have "P (fix_pause (fix_poll e s))"
        using polled by (rule pause)
      then have "P (gnss_fix_wait e tnow (fix_pause (fix_poll e s)))"
        using "1.IH" c False poll pause by blast
      moreover have "gnss_fix_wait e tnow s = gnss_fix_wait e tnow (fix_pause (fix_poll e s))"
        using c False by (subst gnss_fix_wait.simps) simp
      ultimately show ?thesis
        by (simp only:)
    qed
  qed
qed

lemma chg_wait_preserves:
  assumes "\<And>s. P s \<Longrightarrow> P (chg_poll e s)"
    and "\<And>s. P s \<Longrightarrow> P (chg_pause s)"
    and "P s"
  shows "P (chg_wait e tnow s)"
  using assms
proof (induction e tnow s rule: chg_wait.induct)
  case (1 e tnow s)
  note poll = "1.prems"(1) and pause = "1.prems"(2) and init = "1.prems"(3)
  show ?case
  proof (cases "\<not> PGOOD s \<and> millis s - tnow < CHG_timeout * 60 * 1000")
    case False
    then have "chg_wait e tnow s = s"
      by (subst chg_wait.simps) (simp only: if_False)
    with init show ?thesis
      by (simp only:)
  next
    case c: True
    have polled: "P (chg_poll e s)"
      using init by (rule poll)
    show ?thesis
    proof (cases "vbat (chg_poll e s) < VBAT_LOW")
      case True
      with c have "chg_wait e tnow s = chg_poll e s"
        by (subst chg_wait.simps) simp
      with polled show ?thesis
        by (simp only:)
    next
      case False
      have "P (chg_pause (chg_poll e s))"
        using polled by (rule pause)
      then have "P (chg_wait e tnow (chg_pause (chg_poll e s)))"
        using "1.IH" c False poll pause by blast
      moreover have "chg_wait e tnow s = chg_wait e tnow (chg_pause (chg_poll e s))"
        using c False by (subst chg_wait.simps) simp
      ultimately show ?thesis
        by (simp only:)
    qed
  qed
qed

lemma topup_wait_preserves:
  assumes "\<And>s. P s \<Longrightarrow> P (get_vbat e s)"
    and "\<And>s. P s \<Longrightarrow> P (chg_pause s)"
    and "P s"
  shows "P (topup_wait e tnow s)"
  using assms
proof (induction e tnow s rule: topup_wait.induct)
  case (1 e tnow s)
  note poll = "1.prems"(1) and pause = "1.prems"(2) and init = "1.prems"(3)
  show ?case
  proof (cases "millis s - tnow < TOPUP_timeout * 1000")
    case False
    then have "topup_wait e tnow s = s"
      by (subst topup_wait.simps) (simp only: if_False)
    with init show ?thesis
      by (simp only:)
  next
    case c: True
    have polled: "P (get_vbat e s)"
      using init by (rule poll)
    show ?thesis
    proof (cases "vbat (get_vbat e s) < VBAT_LOW")
      case True
      with c have "topup_wait e tnow s = get_vbat e s"
        by (subst topup_wait.simps) simp
      with polled show ?thesis
        by (simp only:)
    next
      case False
      have "P (chg_pause (get_vbat e s))"
        using polled by (rule pause)
      then have "P (topup_wait e tnow (chg_pause (get_vbat e s)))"
        using "1.IH" c False poll pause by blast
      moreover have "topup_wait e tnow s = topup_wait e tnow (chg_pause (get_vbat e s))"
        using c False by (subst topup_wait.simps) simp
      ultimately show ?thesis
        by (simp only:)
    qed
  qed
qed

lemma iterationCounter_polls [simp]:
  "iterationCounter (fix_poll e s) = iterationCounter s"
  "iterationCounter (fix_pause s) = iterationCounter s"
  "iterationCounter (chg_poll e s) = iterationCounter s"
  "iterationCounter (chg_pause s) = iterationCounter s"
  by (simp_all add: fix_poll_def fix_pause_def chg_poll_def chg_pause_def)

lemma iterationCounter_waits [simp]:
  "iterationCounter (gnss_fix_wait e tnow s) = iterationCounter s"
  "iterationCounter (chg_wait e tnow s) = iterationCounter s"
  "iterationCounter (topup_wait e tnow s) = iterationCounter s"
  by (rule gnss_fix_wait_preserves chg_wait_preserves topup_wait_preserves; simp)+

lemma iterationCounter_sleep:
  "sleep_until_alarm e s = Some s' \<Longrightarrow> iterationCounter s' = iterationCounter s"
  by (erule sleep_until_alarm.raw_induct [rotated 1])
    (auto simp: deep_sleep_def called_def am_rtc_isr_def Let_def split: if_splits)

lemma iterationCounter_other_steps:
  assumes "loop_step s \<noteq> start_9603" and "loop e s = Some s'"
  shows "iterationCounter s' = iterationCounter s"
proof (cases "loop_step s")
  case zzz
  with assms(2) obtain s1 where "sleep_until_alarm e (zzz_power_down s) = Some s1"
    and "s' = s1\<lparr>interval_alarm := False, loop_step := wake\<rparr>"
    by (auto simp: loop_def case_zzz_def split: option.splits)
  then show ?thesis
    using iterationCounter_sleep [of e "zzz_power_down s" s1]
    by (simp add: zzz_power_down_def Let_def)
next
  case read_GPS
  with assms(2) show ?thesis
    by (auto simp: loop_def case_read_GPS_def read_GPS_finish_def read_fix_def fix_defaults_def Let_def)
qed (use assms in \<open>auto simp: loop_def case_loop_init_def case_start_GPS_def start_GPS_power_up_def
     case_read_pressure_def case_start_LTC3225_def start_LTC3225_enable_def start_LTC3225_finish_def fix_defaults_def
     case_wait_LTC3225_def wait_LTC3225_finish_def case_wake_def Let_def\<close>)

text \<open>
  Claim C5 as it is written fails: when the modem's \<^verbatim>\<open>begin\<close> returns an error, case
  \<^verbatim>\<open>start_9603\<close> runs to its end and goes on to \<^verbatim>\<open>zzz\<close> with the counter as it was.
\<close>

theorem counter_kept_when_modem_fails:
  "loop_step tx_entry = start_9603
   \<and> map_option iterationCounter (loop env_no_devices tx_entry) = Some (iterationCounter tx_entry)
   \<and> iterationCounter tx_entry + 1 \<noteq> iterationCounter tx_entry"
proof -
  have "err (start_9603_power_up env_no_devices tx_entry) \<noteq> isbd_success env_no_devices"
    by (simp add: start_9603_power_up_def modem_status_def env_no_devices_def Let_def)
  then have "iterationCounter (case_start_9603 env_no_devices tx_entry)
      = iterationCounter tx_entry"
    by (simp add: iterationCounter_start_9603)
  then show ?thesis
    by (simp add: loop_def tx_entry_def)
qed

text \<open>
  Claim C5, as amended. Case \<^verbatim>\<open>start_9603\<close> adds one to \<^verbatim>\<open>iterationCounter\<close> (in the
  32-bit arithmetic of its type) when the modem's \<^verbatim>\<open>begin\<close> succeeds, whatever the send
  returns, and leaves it as it is when \<^verbatim>\<open>begin\<close> fails; the next step is \<^verbatim>\<open>zzz\<close>
  either way. No other case of the loop and not the alarm handler changes the counter,
  and \<^verbatim>\<open>setup\<close> sets it to zero.
\<close>

theorem counter_counts_started_transmissions:
  "(loop_step s = start_9603 \<longrightarrow>
      (\<exists>s'. loop e s = Some s' \<and> loop_step s' = zzz \<and>
         iterationCounter s' =
           (if err (start_9603_power_up e s) = isbd_success e then iterationCounter s + 1
            else iterationCounter s)))
   \<and> (loop_step s \<noteq> start_9603 \<and> loop e s = Some s' \<longrightarrow> iterationCounter s' = iterationCounter s)
   \<and> iterationCounter (am_rtc_isr s) = iterationCounter s
   \<and> iterationCounter (setup_sketch s) = 0"
proof (intro conjI impI)
  assume "loop_step s = start_9603"
  then show "\<exists>s'. loop e s = Some s' \<and> loop_step s' = zzz \<and>
         iterationCounter s' =
           (if err (start_9603_power_up e s) = isbd_success e then iterationCounter s + 1
            else iterationCounter s)"
    by (simp add: loop_def iterationCounter_start_9603 loop_step_start_9603)
next
  assume "loop_step s \<noteq> start_9603 \<and> loop e s = Some s'"
  then show "iterationCounter s' = iterationCounter s"
    using iterationCounter_other_steps by blast
next
  show "iterationCounter (am_rtc_isr s) = iterationCounter s"
    by (simp add: am_rtc_isr_def Let_def)
next
  show "iterationCounter (setup_sketch s) = 0"
    by (simp add: setup_sketch_def Let_def)
qed


theorem counter_counts_started_transmissions_witness:
  "loop_step tx_entry = start_9603
   \<and> err (start_9603_power_up env_good tx_entry) = isbd_success env_good
   \<and> (\<exists>s'. loop env_good tx_entry = Some s' \<and> loop_step s' = zzz \<and> iterationCounter s' = 8)
   \<and> loop_step booted \<noteq> start_9603
   \<and> loop env_good booted = Some (case_loop_init env_good booted)
   \<and> iterationCounter (case_loop_init env_good booted) = iterationCounter booted"
proof -
  have h: "loop_step tx_entry = start_9603" "iterationCounter tx_entry = 7"
    by (simp_all add: tx_entry_def)
  have ok: "err (start_9603_power_up env_good tx_entry) = isbd_success env_good"
    by (simp add: start_9603_power_up_def modem_status_def env_good_def Let_def)
  have b: "loop_step booted \<noteq> start_9603"
    by (simp add: world_defs prim_defs Let_def)
  have l: "loop env_good booted = Some (case_loop_init env_good booted)"
    by (simp add: loop_def world_defs prim_defs Let_def)
  note t1 = counter_counts_started_transmissions [of tx_entry env_good]
  note t2 = counter_counts_started_transmissions
    [of booted env_good "case_loop_init env_good booted"]
  have "\<exists>s'. loop env_good tx_entry = Some s' \<and> loop_step s' = zzz \<and> iterationCounter s' = 8"
    using t1 h ok by simp
  moreover have "iterationCounter (case_loop_init env_good booted) = iterationCounter booted"
    using t2 b l by blast
  ultimately show ?thesis
    using h ok b l by blast
qed

subsection \<open>The two power domains\<close>

lemmas dom_defs = domain_off_def rf_safe_def gnss_enabled_def iridium_enabled_def

lemma domain_off_fields [simp]:
  "domain_off d (delay n s) = domain_off d s"
  "domain_off d (called c s) = domain_off d s"
  "domain_off d (s\<lparr>loop_step := l\<rparr>) = domain_off d s"
  "domain_off d (s\<lparr>fixType := f\<rparr>) = domain_off d s"
  "domain_off d (s\<lparr>PGOOD := b\<rparr>) = domain_off d s"
  "domain_off d (s\<lparr>err := x\<rparr>) = domain_off d s"
  "domain_off d (s\<lparr>vbat := v\<rparr>) = domain_off d s"
  "domain_off d (s\<lparr>iterationCounter := k\<rparr>) = domain_off d s"
  "domain_off d (s\<lparr>interval_alarm := a\<rparr>) = domain_off d s"
  "domain_off d (s\<lparr>seconds_count := w\<rparr>) = domain_off d s"
  "domain_off d (s\<lparr>pascals := x1, tempC := x2\<rparr>) = domain_off d s"
  "domain_off d (s\<lparr>tempC := x2\<rparr>) = domain_off d s"
  "domain_off d (s\<lparr>pascals := x1\<rparr>) = domain_off d s"
  "domain_off d (fix_defaults s) = domain_off d s"
  "domain_off d (read_fix e s) = domain_off d s"
  "domain_off d (am_rtc_isr s) = domain_off d s"
  by (simp_all add: domain_off_def delay_def called_def fix_defaults_def read_fix_def
      am_rtc_isr_def Let_def)

lemma gnss_off_write:
  "p \<noteq> gnssEN \<Longrightarrow> domain_off gnss_enabled s \<Longrightarrow> domain_off gnss_enabled (digitalWrite p v s)"
  "p \<noteq> gnssEN \<Longrightarrow> domain_off gnss_enabled s \<Longrightarrow> domain_off gnss_enabled (pinMode p m s)"
  by (auto simp: dom_defs digitalWrite_def pinMode_def Let_def)

lemma iridium_off_write:
  "p \<noteq> iridiumPwrEN \<Longrightarrow> domain_off iridium_enabled s \<Longrightarrow>
     domain_off iridium_enabled (digitalWrite p v s)"
  "p \<noteq> iridiumPwrEN \<Longrightarrow> domain_off iridium_enabled s \<Longrightarrow>
     domain_off iridium_enabled (pinMode p m s)"
  by (auto simp: dom_defs digitalWrite_def pinMode_def Let_def)

lemma gnss_off_gnssOFF:
  "list_all rf_safe (pin_trace s) \<Longrightarrow> domain_off gnss_enabled (gnssOFF s)"
  by (auto simp: dom_defs gnssOFF_def digitalWrite_def pinMode_def Let_def)

lemma iridium_off_gnss:
  "domain_off iridium_enabled s \<Longrightarrow> domain_off iridium_enabled (gnssOFF s)"
  "domain_off iridium_enabled s \<Longrightarrow> domain_off iridium_enabled (gnssON s)"
  by (simp_all add: gnssOFF_def gnssON_def iridium_off_write)

lemma iridium_off_LOW:
  "list_all rf_safe (pin_trace s) \<Longrightarrow>
     domain_off iridium_enabled (digitalWrite iridiumPwrEN LOW s)"
  by (auto simp: dom_defs digitalWrite_def Let_def)

lemma iridium_off_LOW_after:
  "domain_off gnss_enabled s \<Longrightarrow> domain_off iridium_enabled (digitalWrite iridiumPwrEN LOW s)"
  by (rule iridium_off_LOW) (simp add: domain_off_def)

lemma domain_off_get_vbat:
  "domain_off gnss_enabled s \<Longrightarrow> domain_off gnss_enabled (get_vbat e s)"
  "domain_off iridium_enabled s \<Longrightarrow> domain_off iridium_enabled (get_vbat e s)"
  by (simp_all add: get_vbat_def Let_def gnss_off_write iridium_off_write)

lemma domain_off_flash_LED:
  "domain_off gnss_enabled s \<Longrightarrow> domain_off gnss_enabled (flash_LED k s)"
  "domain_off iridium_enabled s \<Longrightarrow> domain_off iridium_enabled (flash_LED k s)"
  by (simp_all add: flash_LED_def gnss_off_write iridium_off_write)

lemma domain_off_modem:
  "domain_off gnss_enabled s \<Longrightarrow> domain_off gnss_enabled (modem_called e c s)"
  "domain_off iridium_enabled s \<Longrightarrow> domain_off iridium_enabled (modem_called e c s)"
  "domain_off gnss_enabled s \<Longrightarrow> domain_off gnss_enabled (modem_status e c s)"
  "domain_off iridium_enabled s \<Longrightarrow> domain_off iridium_enabled (modem_status e c s)"
  by (simp_all add: modem_called_def modem_status_def gnss_off_write iridium_off_write)

lemma domain_off_polls:
  "domain_off gnss_enabled s \<Longrightarrow> domain_off gnss_enabled (fix_poll e s)"
  "domain_off iridium_enabled s \<Longrightarrow> domain_off iridium_enabled (fix_poll e s)"
  "domain_off gnss_enabled s \<Longrightarrow> domain_off gnss_enabled (chg_poll e s)"
  "domain_off iridium_enabled s \<Longrightarrow> domain_off iridium_enabled (chg_poll e s)"
  "domain_off gnss_enabled s \<Longrightarrow> domain_off gnss_enabled (fix_pause s)"
  "domain_off iridium_enabled s \<Longrightarrow> domain_off iridium_enabled (fix_pause s)"
  "domain_off gnss_enabled s \<Longrightarrow> domain_off gnss_enabled (chg_pause s)"
  "domain_off iridium_enabled s \<Longrightarrow> domain_off iridium_enabled (chg_pause s)"
  by (simp_all add: fix_poll_def chg_poll_def fix_pause_def chg_pause_def
      domain_off_get_vbat domain_off_flash_LED)

lemma domain_off_waits:
  "domain_off gnss_enabled s \<Longrightarrow> domain_off gnss_enabled (gnss_fix_wait e tnow s)"
  "domain_off iridium_enabled s \<Longrightarrow> domain_off iridium_enabled (gnss_fix_wait e tnow s)"
  "domain_off gnss_enabled s \<Longrightarrow> domain_off gnss_enabled (chg_wait e tnow s)"
  "domain_off iridium_enabled s \<Longrightarrow> domain_off iridium_enabled (chg_wait e tnow s)"
  "domain_off gnss_enabled s \<Longrightarrow> domain_off gnss_enabled (topup_wait e tnow s)"
  "domain_off iridium_enabled s \<Longrightarrow> domain_off iridium_enabled (topup_wait e tnow s)"
  by (rule gnss_fix_wait_preserves chg_wait_preserves topup_wait_preserves;
      simp add: domain_off_polls domain_off_get_vbat)+

lemma gnss_off_isbd_polls:
  "domain_off gnss_enabled s \<Longrightarrow> domain_off gnss_enabled (isbd_polls e n s)"
  by (induction n arbitrary: s)
    (simp_all add: ISBDCallback_def Let_def domain_off_get_vbat domain_off_flash_LED)

lemma gnss_off_flash_sent:
  "domain_off gnss_enabled s \<Longrightarrow> domain_off gnss_enabled (flash_sent n s)"
  by (induction n arbitrary: s) (simp_all add: gnss_off_write)


lemma both_off_power_inv: "both_off s \<Longrightarrow> power_inv s"
  by (simp add: both_off_def power_inv_def domain_off_def)

lemma both_off_loop_init: "both_off s \<Longrightarrow> both_off (case_loop_init e s)"
  by (simp add: both_off_def case_loop_init_def Let_def domain_off_get_vbat domain_off_modem)

lemma gnss_off_gnssON_OFF: "domain_off iridium_enabled s \<Longrightarrow> domain_off gnss_enabled (gnssOFF s)"
  by (rule gnss_off_gnssOFF) (simp add: domain_off_def)

lemma iridium_off_power_up:
  "domain_off iridium_enabled s \<Longrightarrow> domain_off iridium_enabled (start_GPS_power_up e s)"
  by (simp add: start_GPS_power_up_def Let_def domain_off_get_vbat iridium_off_gnss)

lemma power_inv_start_GPS:
  assumes "both_off s"
  shows "power_inv (case_start_GPS e s)"
proof -
  let ?u = "start_GPS_power_up e s"
  have u: "domain_off iridium_enabled ?u"
    using assms by (simp add: both_off_def iridium_off_power_up)
  have off: "\<And>x. domain_off iridium_enabled x \<Longrightarrow> both_off (gnssOFF x)"
    by (simp add: both_off_def gnss_off_gnssON_OFF iridium_off_gnss)
  show ?thesis
  proof (cases "vbat ?u < VBAT_LOW")
    case True
    then have "case_start_GPS e s = (gnssOFF ?u)\<lparr>loop_step := zzz\<rparr>"
      by (simp add: case_start_GPS_def Let_def)
    moreover have "both_off ((gnssOFF ?u)\<lparr>loop_step := zzz\<rparr>)"
      using off [OF u] by (simp add: both_off_def)
    ultimately show ?thesis
      by (simp add: both_off_power_inv)
  next
    case ok: False
    show ?thesis
    proof (cases "bool_in e (idx ?u)")
      case False
      with ok have "case_start_GPS e s =
          (gnssOFF (fix_defaults (called GPS_begin ?u)))\<lparr>loop_step := read_pressure\<rparr>"
        by (simp add: case_start_GPS_def Let_def)
      moreover have "both_off ((gnssOFF (fix_defaults (called GPS_begin ?u)))\<lparr>loop_step := read_pressure\<rparr>)"
        using off [of "fix_defaults (called GPS_begin ?u)"] u by (simp add: both_off_def)
      ultimately show ?thesis
        by (simp add: both_off_power_inv)
    next
      case True
      with ok have "case_start_GPS e s =
          (called GPS_setDynamicModel (called GPS_setI2COutput (called GPS_begin ?u)))
            \<lparr>loop_step := read_GPS\<rparr>"
        by (simp add: case_start_GPS_def Let_def)
      moreover have "domain_off iridium_enabled
          ((called GPS_setDynamicModel (called GPS_setI2COutput (called GPS_begin ?u)))
            \<lparr>loop_step := read_GPS\<rparr>)"
        using u by simp
      ultimately show ?thesis
        by (simp add: power_inv_def domain_off_def)
    qed
  qed
qed

lemma both_off_read_GPS:
  assumes "domain_off iridium_enabled s"
  shows "both_off (case_read_GPS e s)"
proof -
  let ?r = "gnss_fix_wait e (millis s) (s\<lparr>fixType := 0\<rparr>)"
  have r: "domain_off iridium_enabled ?r"
    using assms by (simp add: domain_off_waits)
  have "both_off (gnssOFF x)" if "domain_off iridium_enabled x" for x
    using that by (simp add: both_off_def gnss_off_gnssON_OFF iridium_off_gnss)
  then show ?thesis
    using r by (simp add: case_read_GPS_def read_GPS_finish_def Let_def)
qed

lemma both_off_read_pressure: "both_off s \<Longrightarrow> both_off (case_read_pressure e s)"
  by (simp add: both_off_def case_read_pressure_def Let_def split: prod.splits)

lemma both_off_start_LTC3225: "both_off s \<Longrightarrow> both_off (case_start_LTC3225 e s)"
  by (simp add: both_off_def case_start_LTC3225_def start_LTC3225_enable_def
      start_LTC3225_finish_def Let_def domain_off_waits gnss_off_write iridium_off_write)

lemma both_off_wait_LTC3225: "both_off s \<Longrightarrow> both_off (case_wait_LTC3225 e s)"
  by (simp add: both_off_def case_wait_LTC3225_def wait_LTC3225_finish_def Let_def
      domain_off_waits)

lemma gnss_off_start_9603:
  "domain_off gnss_enabled s \<Longrightarrow> domain_off gnss_enabled (case_start_9603 e s)"
  by (simp add: case_start_9603_def start_9603_power_up_def sendSBDText_def Let_def
      domain_off_modem gnss_off_write gnss_off_isbd_polls gnss_off_flash_sent)

lemma both_off_power_down:
  assumes "list_all rf_safe (pin_trace s)" and "rf_safe (pins s)"
  shows "both_off (zzz_power_down s)"
proof -
  have g: "domain_off gnss_enabled (gnssOFF s)"
    using assms(1) by (rule gnss_off_gnssOFF)
  then have g1: "domain_off gnss_enabled (delay 1000 (digitalWrite iridiumSleep LOW (gnssOFF s)))"
    by (simp add: gnss_off_write)
  let ?m = "digitalWrite iridiumPwrEN LOW (delay 1000 (digitalWrite iridiumSleep LOW (gnssOFF s)))"
  have "domain_off gnss_enabled ?m"
    using g1 by (simp add: gnss_off_write)
  moreover have "domain_off iridium_enabled ?m"
    using g1 by (rule iridium_off_LOW_after)
  ultimately show ?thesis
    by (simp add: both_off_def zzz_power_down_def Let_def gnss_off_write iridium_off_write)
qed

lemma pins_deep_sleep: "pins (deep_sleep e s) = pins s \<and> pin_trace (deep_sleep e s) = pin_trace s"
  by (simp add: deep_sleep_def called_def am_rtc_isr_def Let_def)

lemma sleep_keeps_pins:
  "sleep_until_alarm e s = Some s' \<Longrightarrow> pins s' = pins s \<and> pin_trace s' = pin_trace s"
  by (erule sleep_until_alarm.raw_induct [rotated 1]) (auto simp: pins_deep_sleep split: if_splits)

lemma both_off_zzz:
  assumes "power_inv s" and "case_zzz e s = Some s'"
  shows "both_off s'"
proof -
  from assms(2) obtain s1 where s1: "sleep_until_alarm e (zzz_power_down s) = Some s1"
    and s': "s' = s1\<lparr>interval_alarm := False, loop_step := wake\<rparr>"
    by (auto simp: case_zzz_def split: option.splits)
  have "rf_safe (pins s)"
    using assms(1) by (auto simp: power_inv_def rf_safe_def)
  then have "both_off (zzz_power_down s)"
    using assms(1) by (simp add: both_off_power_down power_inv_def)
  then have "both_off s1"
    using sleep_keeps_pins [OF s1] by (simp add: both_off_def domain_off_def)
  then show ?thesis
    by (simp add: s' both_off_def domain_off_def)
qed

lemma power_inv_loop:
  assumes "power_inv s" and "loop e s = Some s'"
  shows "power_inv s'"
proof (cases "loop_step s")
  case loop_init
  then have "both_off s" using assms(1) by (auto simp: power_inv_def both_off_def domain_off_def)
  with loop_init assms(2) show ?thesis
    by (auto simp: loop_def both_off_power_inv both_off_loop_init)
next
  case start_GPS
  then have "both_off s" using assms(1) by (auto simp: power_inv_def both_off_def domain_off_def)
  with start_GPS assms(2) show ?thesis
    by (auto simp: loop_def power_inv_start_GPS)
next
  case read_GPS
  then have "domain_off iridium_enabled s"
    using assms(1) by (auto simp: power_inv_def domain_off_def)
  with read_GPS assms(2) show ?thesis
    by (auto simp: loop_def both_off_power_inv both_off_read_GPS)
next
  case read_pressure
  then have "both_off s" using assms(1) by (auto simp: power_inv_def both_off_def domain_off_def)
  with read_pressure assms(2) show ?thesis
    by (auto simp: loop_def both_off_power_inv both_off_read_pressure)
next
  case start_LTC3225
  then have "both_off s" using assms(1) by (auto simp: power_inv_def both_off_def domain_off_def)
  with start_LTC3225 assms(2) show ?thesis
    by (auto simp: loop_def both_off_power_inv both_off_start_LTC3225)
next
  case wait_LTC3225
  then have "both_off s" using assms(1) by (auto simp: power_inv_def both_off_def domain_off_def)
  with wait_LTC3225 assms(2) show ?thesis
    by (auto simp: loop_def both_off_power_inv both_off_wait_LTC3225)
next
  case start_9603
  then have "domain_off gnss_enabled s"
    using assms(1) by (auto simp: power_inv_def domain_off_def)
  then have "domain_off gnss_enabled (case_start_9603 e s)"
    by (rule gnss_off_start_9603)
  moreover have "loop_step (case_start_9603 e s) = zzz"
    by (simp add: case_start_9603_def Let_def)
  ultimately show ?thesis
    using start_9603 assms(2) by (auto simp: loop_def power_inv_def domain_off_def)
next
  case zzz
  with assms show ?thesis
    by (auto simp: loop_def both_off_power_inv dest: both_off_zzz)
next
  case wake
  then have "both_off s" using assms(1) by (auto simp: power_inv_def both_off_def domain_off_def)
  with wake assms(2) show ?thesis
    by (auto simp: loop_def case_wake_def both_off_def intro!: both_off_power_inv)
qed

lemma both_off_boot:
  assumes "rf_safe p0"
  shows "both_off (setup_sketch (power_on p0))"
proof -
  let ?a = "gnssOFF (pinMode LED OUTPUT (power_on p0))"
  have "list_all rf_safe (pin_trace (pinMode LED OUTPUT (power_on p0)))"
    using assms by (simp add: pinMode_def power_on_def Let_def dom_defs)
  then have a: "domain_off gnss_enabled ?a"
    by (rule gnss_off_gnssOFF)
  let ?b = "pinMode iridiumPwrEN OUTPUT (pinMode geofencePin INPUT ?a)"
  have b: "domain_off gnss_enabled ?b"
    using a by (simp add: gnss_off_write)
  let ?c = "digitalWrite iridiumPwrEN LOW ?b"
  have "domain_off gnss_enabled ?c" "domain_off iridium_enabled ?c"
    using b by (simp_all add: gnss_off_write iridium_off_LOW_after)
  then show ?thesis
    by (simp add: both_off_def setup_sketch_def Let_def gnss_off_write iridium_off_write)
qed

lemma both_off_first_loop: "both_off ((setup_sketch (power_on p0))\<lparr>pin_trace := []\<rparr>)"
  by (simp add: both_off_def dom_defs setup_sketch_def prim_defs Let_def)

lemma reachable_power_inv:
  assumes "reachable e p0 s"
  shows "power_inv s"
  using assms
proof (induction rule: reachable.induct)
  case boot
  then show ?case by (simp add: both_off_power_inv both_off_first_loop)
next
  case (step s s')
  then show ?case by (simp add: power_inv_loop)
next
  case (tick s)
  then show ?case by (simp add: power_inv_def am_rtc_isr_def Let_def)
qed

text \<open>
  Claim C2. In every state the sketch can reach, the receiver and the modem are not
  both powered, and neither were they in any pin configuration the loop has passed
  through on the way, nor are they in any configuration that turning everything off in
  case \<^verbatim>\<open>zzz\<close> passes through from there. The same holds for the configurations
  \<^verbatim>\<open>setup\<close> passes through, when the reset does not leave both domains on.
\<close>

theorem gnss_and_modem_never_powered_together:
  assumes "reachable e p0 s"
  shows "\<not> (gnss_enabled (pins s) \<and> iridium_enabled (pins s))
       \<and> (\<forall>p \<in> set (pin_trace s). \<not> (gnss_enabled p \<and> iridium_enabled p))
       \<and> (\<forall>p \<in> set (pin_trace (zzz_power_down s)). \<not> (gnss_enabled p \<and> iridium_enabled p))
       \<and> (\<not> (gnss_enabled p0 \<and> iridium_enabled p0) \<longrightarrow>
            (\<forall>p \<in> set (pin_trace (setup_sketch (power_on p0))).
               \<not> (gnss_enabled p \<and> iridium_enabled p)))"
proof -
  have inv: "power_inv s"
    using assms by (rule reachable_power_inv)
  then have now: "rf_safe (pins s)" and past: "list_all rf_safe (pin_trace s)"
    by (auto simp: power_inv_def rf_safe_def)
  from past now have "both_off (zzz_power_down s)"
    by (rule both_off_power_down)
  then have down: "list_all rf_safe (pin_trace (zzz_power_down s))"
    by (simp add: both_off_def domain_off_def)
  have "list_all rf_safe (pin_trace (setup_sketch (power_on p0)))" if "rf_safe p0"
    using both_off_boot [OF that] by (simp add: both_off_def domain_off_def)
  with now past down show ?thesis
    by (simp add: list_all_iff rf_safe_def)
qed

theorem gnss_and_modem_never_powered_together_witness:
  "reachable env_good reset_pins (case_start_GPS env_good (case_loop_init env_good booted))
   \<and> \<not> (gnss_enabled reset_pins \<and> iridium_enabled reset_pins)
   \<and> gnss_enabled (pins (case_start_GPS env_good (case_loop_init env_good booted)))
   \<and> \<not> iridium_enabled (pins (case_start_GPS env_good (case_loop_init env_good booted)))
   \<and> list_all rf_safe (pin_trace (case_start_GPS env_good (case_loop_init env_good booted)))
   \<and> list_all rf_safe (pin_trace (setup_sketch (power_on reset_pins)))"
proof -
  let ?s1 = "case_loop_init env_good booted"
  let ?s2 = "case_start_GPS env_good ?s1"
  have v: "\<not> (real 10000 * 3.0 * 1.09 * 2.0 / 16384.0 < VBAT_LOW)"
    by (simp add: VBAT_LOW_def)
  have r0: "reachable env_good reset_pins booted"
    unfolding booted_def by (rule reachable.boot)
  have "loop env_good booted = Some ?s1"
    by (simp add: loop_def world_defs prim_defs Let_def)
  with r0 have r1: "reachable env_good reset_pins ?s1"
    by (rule reachable.step)
  have l1: "loop_step ?s1 = start_GPS"
    by (simp add: case_loop_init_def world_defs prim_defs Let_def)
  then have "loop env_good ?s1 = Some ?s2"
    by (simp add: loop_def)
  with r1 have r2: "reachable env_good reset_pins ?s2"
    by (rule reachable.step)
  have safe0: "\<not> (gnss_enabled reset_pins \<and> iridium_enabled reset_pins)"
    by (simp add: reset_pins_def gnss_enabled_def)
  have on: "gnss_enabled (pins ?s2)"
    by (simp add: case_start_GPS_def start_GPS_power_up_def case_loop_init_def world_defs
        prim_defs gnss_enabled_def Let_def)
  have "\<not> iridium_enabled (pins ?s2) \<and> list_all rf_safe (pin_trace ?s2)
      \<and> list_all rf_safe (pin_trace (setup_sketch (power_on reset_pins)))"
    using gnss_and_modem_never_powered_together [OF r2] on safe0
    by (simp add: list_all_iff rf_safe_def)
  with r2 safe0 on show ?thesis
    by blast
qed

subsection \<open>Turning everything off\<close>

lemma power_down_off: "power_domains_off (pins (zzz_power_down s))"
  by (simp add: power_domains_off_def zzz_power_down_def prim_defs Let_def)

lemma power_down_twice: "pins (zzz_power_down (zzz_power_down s)) = pins (zzz_power_down s)"
  by (simp add: zzz_power_down_def prim_defs Let_def)

text \<open>
  Claim C7. From whatever state case \<^verbatim>\<open>zzz\<close> is entered, its writes leave the
  receiver's enable, the modem's power enable, the modem's ON/OFF line, the charger's
  enable and the voltage monitor's enable at their off levels before the first deep
  sleep; the sleep changes no pin, so they are still off when the step returns; and
  turning everything off a second time changes no pin.
\<close>

theorem sleep_turns_every_domain_off:
  assumes "loop_step s = zzz"
  shows "power_domains_off (pins (zzz_power_down s))
       \<and> loop e s =
           (case sleep_until_alarm e (zzz_power_down s) of
              None \<Rightarrow> None
            | Some s1 \<Rightarrow> Some (s1\<lparr>interval_alarm := False, loop_step := wake\<rparr>))
       \<and> pins (deep_sleep e s1) = pins s1
       \<and> (\<forall>s'. loop e s = Some s' \<longrightarrow> power_domains_off (pins s'))
       \<and> pins (zzz_power_down (zzz_power_down s)) = pins (zzz_power_down s)"
proof (intro conjI allI impI)
  show "power_domains_off (pins (zzz_power_down s))"
    by (rule power_down_off)
  show "loop e s =
           (case sleep_until_alarm e (zzz_power_down s) of
              None \<Rightarrow> None
            | Some s1 \<Rightarrow> Some (s1\<lparr>interval_alarm := False, loop_step := wake\<rparr>))"
    using assms by (simp add: loop_def case_zzz_def)
  show "pins (deep_sleep e s1) = pins s1"
    by (simp add: pins_deep_sleep)
  show "pins (zzz_power_down (zzz_power_down s)) = pins (zzz_power_down s)"
    by (rule power_down_twice)
next
  fix s'
  assume "loop e s = Some s'"
  with assms obtain s1 where s1: "sleep_until_alarm e (zzz_power_down s) = Some s1"
    and s': "s' = s1\<lparr>interval_alarm := False, loop_step := wake\<rparr>"
    by (auto simp: loop_def case_zzz_def split: option.splits)
  have "pins s' = pins (zzz_power_down s)"
    using sleep_keeps_pins [OF s1] by (simp add: s')
  then show "power_domains_off (pins s')"
    by (simp add: power_down_off)
qed

theorem sleep_turns_every_domain_off_witness:
  "loop_step all_on = zzz
   \<and> gnss_enabled (pins all_on) \<and> iridium_enabled (pins all_on)
   \<and> level (pins all_on) iridiumSleep = HIGH \<and> level (pins all_on) superCapChgEN = HIGH
   \<and> level (pins all_on) busVoltageMonEN = HIGH
   \<and> power_domains_off (pins (zzz_power_down all_on))
   \<and> loop env_good all_on = Some (the (loop env_good all_on))
   \<and> power_domains_off (pins (the (loop env_good all_on)))"
proof -
  have z: "loop_step all_on = zzz"
    by (simp add: all_on_def)
  have a: "interval_alarm (zzz_power_down all_on)"
    by (simp add: all_on_def zzz_power_down_def prim_defs Let_def)
  then have "loop env_good all_on \<noteq> None"
    using z by (simp add: loop_def case_zzz_def sleep_until_alarm.simps)
  then have r: "loop env_good all_on = Some (the (loop env_good all_on))"
    by simp
  have on: "gnss_enabled (pins all_on) \<and> iridium_enabled (pins all_on)
      \<and> level (pins all_on) iridiumSleep = HIGH \<and> level (pins all_on) superCapChgEN = HIGH
      \<and> level (pins all_on) busVoltageMonEN = HIGH"
    by (simp add: all_on_def gnss_enabled_def iridium_enabled_def world_defs prim_defs Let_def)
  show ?thesis
    using sleep_turns_every_domain_off [OF z, of env_good] z r on by blast
qed


subsection \<open>Leaving the wait loops\<close>

lemma gnss_fix_wait_low:
  assumes "fixType s \<noteq> 3 \<and> millis s - tnow < GNSS_timeout * 60 * 1000"
    and "vbat (fix_poll e s) < VBAT_LOW"
  shows "gnss_fix_wait e tnow s = fix_poll e s"
  using assms by (subst gnss_fix_wait.simps) simp

lemma chg_wait_low:
  assumes "\<not> PGOOD s \<and> millis s - tnow < CHG_timeout * 60 * 1000"
    and "vbat (chg_poll e s) < VBAT_LOW"
  shows "chg_wait e tnow s = chg_poll e s"
  using assms by (subst chg_wait.simps) simp

lemma topup_wait_low:
  assumes "millis s - tnow < TOPUP_timeout * 1000"
    and "vbat (get_vbat e s) < VBAT_LOW"
  shows "topup_wait e tnow s = get_vbat e s"
  using assms by (subst topup_wait.simps) simp

lemma finish_low:
  "vbat s < VBAT_LOW \<Longrightarrow> loop_step (read_GPS_finish e s) = zzz"
  "vbat s < VBAT_LOW \<Longrightarrow> loop_step (start_LTC3225_finish s) = zzz"
  "vbat s < VBAT_LOW \<Longrightarrow> loop_step (wait_LTC3225_finish s) = zzz"
  by (simp_all add: read_GPS_finish_def start_LTC3225_finish_def wait_LTC3225_finish_def
      gnssOFF_def pinMode_def digitalWrite_def Let_def)

text \<open>
  Claim C3. In each of the three wait loops (for the fix, for PGOOD, for the top-up):
  when the voltage read in a pass of the loop is below \<^verbatim>\<open>VBAT_LOW\<close>, the loop ends with
  the state of that very reading, at the clock of that reading (before the pause of
  100 ms), and what follows the loop makes \<^verbatim>\<open>zzz\<close> the next step; and a step whose
  loop ends on a low voltage returns with \<^verbatim>\<open>zzz\<close> as the next step.
\<close>

theorem low_voltage_ends_every_wait:
  "(fixType s \<noteq> 3 \<and> millis s - tnow < GNSS_timeout * 60 * 1000
      \<and> vbat (fix_poll e s) < VBAT_LOW \<longrightarrow>
        gnss_fix_wait e tnow s = fix_poll e s
        \<and> millis (gnss_fix_wait e tnow s) = millis (fix_poll e s)
        \<and> loop_step (read_GPS_finish e (gnss_fix_wait e tnow s)) = zzz)
   \<and> (\<not> PGOOD s \<and> millis s - tnow < CHG_timeout * 60 * 1000
      \<and> vbat (chg_poll e s) < VBAT_LOW \<longrightarrow>
        chg_wait e tnow s = chg_poll e s
        \<and> millis (chg_wait e tnow s) = millis (chg_poll e s)
        \<and> loop_step (start_LTC3225_finish (chg_wait e tnow s)) = zzz)
   \<and> (millis s - tnow < TOPUP_timeout * 1000
      \<and> vbat (get_vbat e s) < VBAT_LOW \<longrightarrow>
        topup_wait e tnow s = get_vbat e s
        \<and> millis (topup_wait e tnow s) = millis (get_vbat e s)
        \<and> loop_step (wait_LTC3225_finish (topup_wait e tnow s)) = zzz)
   \<and> (loop_step s0 = read_GPS
      \<and> vbat (gnss_fix_wait e (millis s0) (s0\<lparr>fixType := 0\<rparr>)) < VBAT_LOW \<longrightarrow>
        (\<exists>s'. loop e s0 = Some s' \<and> loop_step s' = zzz))
   \<and> (loop_step s0 = start_LTC3225
      \<and> vbat (chg_wait e (millis (start_LTC3225_enable s0)) (start_LTC3225_enable s0))
           < VBAT_LOW \<longrightarrow>
        (\<exists>s'. loop e s0 = Some s' \<and> loop_step s' = zzz))
   \<and> (loop_step s0 = wait_LTC3225
      \<and> vbat (topup_wait e (millis s0) s0) < VBAT_LOW \<longrightarrow>
        (\<exists>s'. loop e s0 = Some s' \<and> loop_step s' = zzz))"
proof (intro conjI impI)
  assume a: "fixType s \<noteq> 3 \<and> millis s - tnow < GNSS_timeout * 60 * 1000
      \<and> vbat (fix_poll e s) < VBAT_LOW"
  then show eq: "gnss_fix_wait e tnow s = fix_poll e s"
    by (simp add: gnss_fix_wait_low)
  then show "millis (gnss_fix_wait e tnow s) = millis (fix_poll e s)"
    by simp
  from a eq show "loop_step (read_GPS_finish e (gnss_fix_wait e tnow s)) = zzz"
    by (simp add: finish_low)
next
  assume a: "\<not> PGOOD s \<and> millis s - tnow < CHG_timeout * 60 * 1000
      \<and> vbat (chg_poll e s) < VBAT_LOW"
  then show eq: "chg_wait e tnow s = chg_poll e s"
    by (simp add: chg_wait_low)
  then show "millis (chg_wait e tnow s) = millis (chg_poll e s)"
    by simp
  from a eq show "loop_step (start_LTC3225_finish (chg_wait e tnow s)) = zzz"
    by (simp add: finish_low)
next
  assume a: "millis s - tnow < TOPUP_timeout * 1000 \<and> vbat (get_vbat e s) < VBAT_LOW"
  then show eq: "topup_wait e tnow s = get_vbat e s"
    by (simp add: topup_wait_low)
  then show "millis (topup_wait e tnow s) = millis (get_vbat e s)"
    by simp
  from a eq show "loop_step (wait_LTC3225_finish (topup_wait e tnow s)) = zzz"
    by (simp add: finish_low)
next
  assume "loop_step s0 = read_GPS
      \<and> vbat (gnss_fix_wait e (millis s0) (s0\<lparr>fixType := 0\<rparr>)) < VBAT_LOW"
  then show "\<exists>s'. loop e s0 = Some s' \<and> loop_step s' = zzz"
    by (simp add: loop_def case_read_GPS_def Let_def finish_low)
next
  assume "loop_step s0 = start_LTC3225
      \<and> vbat (chg_wait e (millis (start_LTC3225_enable s0)) (start_LTC3225_enable s0))
           < VBAT_LOW"
  then show "\<exists>s'. loop e s0 = Some s' \<and> loop_step s' = zzz"
    by (simp add: loop_def case_start_LTC3225_def Let_def finish_low)
next
  assume "loop_step s0 = wait_LTC3225 \<and> vbat (topup_wait e (millis s0) s0) < VBAT_LOW"
  then show "\<exists>s'. loop e s0 = Some s' \<and> loop_step s' = zzz"
    by (simp add: loop_def case_wait_LTC3225_def Let_def finish_low)
qed

theorem low_voltage_ends_every_wait_witness:
  "fixType booted \<noteq> 3 \<and> \<not> PGOOD booted
   \<and> millis booted - millis booted < GNSS_timeout * 60 * 1000
   \<and> millis booted - millis booted < CHG_timeout * 60 * 1000
   \<and> millis booted - millis booted < TOPUP_timeout * 1000
   \<and> vbat (fix_poll env_low_battery booted) < VBAT_LOW
   \<and> vbat (chg_poll env_low_battery booted) < VBAT_LOW
   \<and> vbat (get_vbat env_low_battery booted) < VBAT_LOW
   \<and> gnss_fix_wait env_low_battery (millis booted) booted = fix_poll env_low_battery booted
   \<and> chg_wait env_low_battery (millis booted) booted = chg_poll env_low_battery booted
   \<and> topup_wait env_low_battery (millis booted) booted = get_vbat env_low_battery booted
   \<and> (\<exists>s'. loop env_low_battery (booted\<lparr>loop_step := read_GPS\<rparr>) = Some s'
          \<and> loop_step s' = zzz)
   \<and> (\<exists>s'. loop env_low_battery (booted\<lparr>loop_step := start_LTC3225\<rparr>) = Some s'
          \<and> loop_step s' = zzz)
   \<and> (\<exists>s'. loop env_low_battery (booted\<lparr>loop_step := wait_LTC3225\<rparr>) = Some s'
          \<and> loop_step s' = zzz)"
proof -
  let ?e = env_low_battery
  let ?g = "booted\<lparr>loop_step := read_GPS\<rparr>"
  let ?c = "booted\<lparr>loop_step := start_LTC3225\<rparr>"
  let ?w = "booted\<lparr>loop_step := wait_LTC3225\<rparr>"
  have b: "fixType booted \<noteq> 3" "\<not> PGOOD booted"
    by (simp_all add: world_defs prim_defs Let_def)
  have t: "millis booted - millis booted < GNSS_timeout * 60 * 1000"
    "millis booted - millis booted < CHG_timeout * 60 * 1000"
    "millis booted - millis booted < TOPUP_timeout * 1000"
    by (simp_all add: GNSS_timeout_def CHG_timeout_def TOPUP_timeout_def)
  have v: "vbat (get_vbat ?e x) < VBAT_LOW" for x
    by (simp add: get_vbat_def digitalWrite_def delay_def called_def Let_def
        env_low_battery_def VBAT_LOW_def)
  then have low: "vbat (fix_poll ?e x) < VBAT_LOW" "vbat (chg_poll ?e x) < VBAT_LOW" for x
    by (simp_all add: fix_poll_def chg_poll_def)
  have lg: "vbat (gnss_fix_wait ?e (millis ?g) (?g\<lparr>fixType := 0\<rparr>)) < VBAT_LOW"
    by (subst gnss_fix_wait_low) (simp_all add: low GNSS_timeout_def)
  have lc: "vbat (chg_wait ?e (millis (start_LTC3225_enable ?c)) (start_LTC3225_enable ?c))
      < VBAT_LOW"
    by (subst chg_wait_low) (simp_all add: low CHG_timeout_def start_LTC3225_enable_def Let_def)
  have lw: "vbat (topup_wait ?e (millis ?w) ?w) < VBAT_LOW"
    by (subst topup_wait_low) (simp_all add: v TOPUP_timeout_def)
  note t1 = low_voltage_ends_every_wait [of booted "millis booted" ?e ?g]
  note t2 = low_voltage_ends_every_wait [of booted "millis booted" ?e ?c]
  note t3 = low_voltage_ends_every_wait [of booted "millis booted" ?e ?w]
  have "\<exists>s'. loop ?e ?g = Some s' \<and> loop_step s' = zzz"
    using t1 lg by simp
  moreover have "\<exists>s'. loop ?e ?c = Some s' \<and> loop_step s' = zzz"
    using t2 lc by simp
  moreover have "\<exists>s'. loop ?e ?w = Some s' \<and> loop_step s' = zzz"
    using t3 lw by simp
  moreover have "gnss_fix_wait ?e (millis booted) booted = fix_poll ?e booted
      \<and> chg_wait ?e (millis booted) booted = chg_poll ?e booted
      \<and> topup_wait ?e (millis booted) booted = get_vbat ?e booted"
    using t1 b t low v by simp
  ultimately show ?thesis
    using b t low v by simp
qed

lemma fix_of_prims [simp]:
  "fix_of (digitalWrite p v s) = fix_of s"
  "fix_of (pinMode p m s) = fix_of s"
  "fix_of (delay n s) = fix_of s"
  "fix_of (called c s) = fix_of s"
  "fix_of (get_vbat e s) = fix_of s"
  "fix_of (flash_LED k s) = fix_of s"
  "fix_of (gnssOFF s) = fix_of s"
  "fix_of (s\<lparr>fixType := f\<rparr>) = fix_of s"
  "fix_of (s\<lparr>loop_step := l\<rparr>) = fix_of s"
  by (simp_all add: fix_of_def prim_defs flash_LED_def Let_def)

lemma fix_of_gnss_fix_wait: "fix_of (gnss_fix_wait e tnow s) = fix_of s"
  by (rule gnss_fix_wait_preserves [where P = "\<lambda>x. fix_of x = fix_of s"])
    (simp_all add: fix_poll_def fix_pause_def)

text \<open>
  Claim C10. When a wait loop ends with its goal met (a 3D fix in \<^verbatim>\<open>read_GPS\<close>,
  \<^verbatim>\<open>PGOOD\<close> set in the two charger cases) and with the voltage below \<^verbatim>\<open>VBAT_LOW\<close>,
  the next step is \<^verbatim>\<open>zzz\<close>; in \<^verbatim>\<open>read_GPS\<close> the fields of the fix are then those
  the step started with.
\<close>

theorem low_voltage_takes_priority:
  "(loop_step s = read_GPS
      \<and> fixType (gnss_fix_wait e (millis s) (s\<lparr>fixType := 0\<rparr>)) = 3
      \<and> vbat (gnss_fix_wait e (millis s) (s\<lparr>fixType := 0\<rparr>)) < VBAT_LOW \<longrightarrow>
        (\<exists>s'. loop e s = Some s' \<and> loop_step s' = zzz \<and> fix_of s' = fix_of s))
   \<and> (loop_step s = start_LTC3225
      \<and> PGOOD (chg_wait e (millis (start_LTC3225_enable s)) (start_LTC3225_enable s))
      \<and> vbat (chg_wait e (millis (start_LTC3225_enable s)) (start_LTC3225_enable s))
           < VBAT_LOW \<longrightarrow>
        (\<exists>s'. loop e s = Some s' \<and> loop_step s' = zzz))
   \<and> (loop_step s = wait_LTC3225
      \<and> PGOOD (topup_wait e (millis s) s)
      \<and> vbat (topup_wait e (millis s) s) < VBAT_LOW \<longrightarrow>
        (\<exists>s'. loop e s = Some s' \<and> loop_step s' = zzz))"
proof (intro conjI impI)
  assume "loop_step s = read_GPS
      \<and> fixType (gnss_fix_wait e (millis s) (s\<lparr>fixType := 0\<rparr>)) = 3
      \<and> vbat (gnss_fix_wait e (millis s) (s\<lparr>fixType := 0\<rparr>)) < VBAT_LOW"
  then have step: "loop_step s = read_GPS"
    and low: "vbat (gnss_fix_wait e (millis s) (s\<lparr>fixType := 0\<rparr>)) < VBAT_LOW"
    by simp_all
  let ?r = "gnss_fix_wait e (millis s) (s\<lparr>fixType := 0\<rparr>)"
  have "fix_of (read_GPS_finish e ?r) = fix_of ?r"
    using low by (simp add: read_GPS_finish_def)
  then have "fix_of (read_GPS_finish e ?r) = fix_of s"
    by (simp add: fix_of_gnss_fix_wait)
  moreover have "loop_step (read_GPS_finish e ?r) = zzz"
    using low by (rule finish_low)
  moreover have "loop e s = Some (read_GPS_finish e ?r)"
    using step by (simp add: loop_def case_read_GPS_def Let_def)
  ultimately show "\<exists>s'. loop e s = Some s' \<and> loop_step s' = zzz \<and> fix_of s' = fix_of s"
    by simp
next
  assume "loop_step s = start_LTC3225
      \<and> PGOOD (chg_wait e (millis (start_LTC3225_enable s)) (start_LTC3225_enable s))
      \<and> vbat (chg_wait e (millis (start_LTC3225_enable s)) (start_LTC3225_enable s))
           < VBAT_LOW"
  then show "\<exists>s'. loop e s = Some s' \<and> loop_step s' = zzz"
    by (simp add: loop_def case_start_LTC3225_def Let_def finish_low)
next
  assume "loop_step s = wait_LTC3225
      \<and> PGOOD (topup_wait e (millis s) s)
      \<and> vbat (topup_wait e (millis s) s) < VBAT_LOW"
  then show "\<exists>s'. loop e s = Some s' \<and> loop_step s' = zzz"
    by (simp add: loop_def case_wait_LTC3225_def Let_def finish_low)
qed


theorem low_voltage_takes_priority_witness:
  "fixType (gnss_fix_wait env_low_battery (millis (booted\<lparr>loop_step := read_GPS\<rparr>))
        (booted\<lparr>loop_step := read_GPS, fixType := 0\<rparr>)) = 3
   \<and> vbat (gnss_fix_wait env_low_battery (millis (booted\<lparr>loop_step := read_GPS\<rparr>))
        (booted\<lparr>loop_step := read_GPS, fixType := 0\<rparr>)) < VBAT_LOW
   \<and> (\<exists>s'. loop env_low_battery (booted\<lparr>loop_step := read_GPS\<rparr>) = Some s'
          \<and> loop_step s' = zzz
          \<and> fix_of s' = (0, 0, 0, 0, 0, 0, 0, 1970, 1, 1, 0, 0, 0, 0))
   \<and> PGOOD (chg_wait env_low_battery
        (millis (start_LTC3225_enable (booted\<lparr>loop_step := start_LTC3225\<rparr>)))
        (start_LTC3225_enable (booted\<lparr>loop_step := start_LTC3225\<rparr>)))
   \<and> (\<exists>s'. loop env_low_battery (booted\<lparr>loop_step := start_LTC3225\<rparr>) = Some s'
          \<and> loop_step s' = zzz)
   \<and> PGOOD (topup_wait env_low_battery (millis topup_entry) topup_entry)
   \<and> (\<exists>s'. loop env_low_battery topup_entry = Some s' \<and> loop_step s' = zzz)"
proof -
  let ?e = env_low_battery
  let ?g = "booted\<lparr>loop_step := read_GPS\<rparr>"
  let ?gz = "?g\<lparr>fixType := 0\<rparr>"
  let ?c = "booted\<lparr>loop_step := start_LTC3225\<rparr>"
  let ?ce = "start_LTC3225_enable ?c"
  have v: "vbat (get_vbat ?e x) < VBAT_LOW" for x
    by (simp add: get_vbat_def digitalWrite_def delay_def called_def Let_def
        env_low_battery_def VBAT_LOW_def)
  then have low: "vbat (fix_poll ?e x) < VBAT_LOW" "vbat (chg_poll ?e x) < VBAT_LOW" for x
    by (simp_all add: fix_poll_def chg_poll_def)
  have eq: "gnss_fix_wait ?e (millis ?g) ?gz = fix_poll ?e ?gz"
    by (rule gnss_fix_wait_low) (simp_all add: low GNSS_timeout_def)
  have f3: "fixType (fix_poll ?e ?gz) = 3"
    by (simp add: fix_poll_def get_vbat_def digitalWrite_def delay_def called_def Let_def
        env_low_battery_def)
  have fx: "fix_of ?g = (0, 0, 0, 0, 0, 0, 0, 1970, 1, 1, 0, 0, 0, 0)"
    by (simp add: fix_of_def world_defs prim_defs Let_def)
  have h1: "loop_step ?g = read_GPS
      \<and> fixType (gnss_fix_wait ?e (millis ?g) ?gz) = 3
      \<and> vbat (gnss_fix_wait ?e (millis ?g) ?gz) < VBAT_LOW"
  proof -
    have "loop_step ?g = read_GPS"
      by simp
    with f3 low(1) [of ?gz] show ?thesis
      by (simp only: eq)
  qed
  then obtain s1 where s1: "loop ?e ?g = Some s1" "loop_step s1 = zzz" "fix_of s1 = fix_of ?g"
    using low_voltage_takes_priority [of ?g ?e] by blast
  have r1: "\<exists>s'. loop ?e ?g = Some s' \<and> loop_step s' = zzz
      \<and> fix_of s' = (0, 0, 0, 0, 0, 0, 0, 1970, 1, 1, 0, 0, 0, 0)"
    using s1 fx by (intro exI [of _ s1]) (simp only:)
  have eqc: "chg_wait ?e (millis ?ce) ?ce = chg_poll ?e ?ce"
    by (rule chg_wait_low) (simp_all add: low CHG_timeout_def start_LTC3225_enable_def Let_def)
  have pg: "PGOOD (chg_poll ?e ?ce)"
    by (simp add: chg_poll_def get_vbat_def digitalWrite_def delay_def called_def Let_def
        env_low_battery_def)
  have h2: "loop_step ?c = start_LTC3225 \<and> PGOOD (chg_wait ?e (millis ?ce) ?ce)
      \<and> vbat (chg_wait ?e (millis ?ce) ?ce) < VBAT_LOW"
  proof -
    have "loop_step ?c = start_LTC3225"
      by simp
    with pg low(2) [of ?ce] show ?thesis
      by (simp only: eqc)
  qed
  then have r2: "\<exists>s'. loop ?e ?c = Some s' \<and> loop_step s' = zzz"
    using low_voltage_takes_priority [of ?c ?e] by blast
  have eqt: "topup_wait ?e (millis topup_entry) topup_entry = get_vbat ?e topup_entry"
    by (rule topup_wait_low) (simp_all add: v TOPUP_timeout_def)
  have pt: "PGOOD (get_vbat ?e topup_entry)"
    by (simp add: topup_entry_def get_vbat_def digitalWrite_def delay_def called_def Let_def)
  have h3: "loop_step topup_entry = wait_LTC3225
      \<and> PGOOD (topup_wait ?e (millis topup_entry) topup_entry)
      \<and> vbat (topup_wait ?e (millis topup_entry) topup_entry) < VBAT_LOW"
  proof -
    have "loop_step topup_entry = wait_LTC3225"
      by (simp add: topup_entry_def)
    with pt v [of topup_entry] show ?thesis
      by (simp only: eqt)
  qed
  then have r3: "\<exists>s'. loop ?e topup_entry = Some s' \<and> loop_step s' = zzz"
    using low_voltage_takes_priority [of topup_entry ?e] by blast
  from h1 r1 h2 r2 h3 r3 show ?thesis
    by (simp only: simp_thms)
qed

subsection \<open>The top-up wait and PGOOD\<close>

lemma topup_wait_PGOOD: "PGOOD (topup_wait e tnow s) = PGOOD s"
  by (rule topup_wait_preserves [where P = "\<lambda>x. PGOOD x = PGOOD s"])
    (simp_all add: chg_pause_def prim_defs flash_LED_def Let_def)

lemma topup_wait_reads_no_pin:
  assumes "DigitalRead p \<notin> set (calls s)"
  shows "DigitalRead p \<notin> set (calls (topup_wait e tnow s))"
  using assms
  by (rule topup_wait_preserves [where P = "\<lambda>x. DigitalRead p \<notin> set (calls x)", rotated 2])
    (simp_all add: chg_pause_def prim_defs flash_LED_def Let_def)

lemma topup_wait_good_battery:
  assumes "\<not> vbat s < VBAT_LOW"
  shows "\<not> vbat (topup_wait env_no_devices tnow s) < VBAT_LOW"
  using assms
  by (rule topup_wait_preserves [where P = "\<lambda>x. \<not> vbat x < VBAT_LOW", rotated 2])
    (simp_all add: chg_pause_def prim_defs flash_LED_def Let_def env_no_devices_def VBAT_LOW_def)

text \<open>
  Claim C1 fails on the code. The wait loop of case \<^verbatim>\<open>wait_LTC3225\<close> reads the voltage
  in every pass, not the PGOOD pin: the flag \<^verbatim>\<open>PGOOD\<close> tested after the loop is the one
  case \<^verbatim>\<open>start_LTC3225\<close> left set. Entered with the flag set, a healthy battery and a
  PGOOD pin that reads low from then on, the step reads the pin not once and goes on
  to \<^verbatim>\<open>start_9603\<close>.
\<close>

theorem topup_wait_never_reads_PGOOD:
  "loop_step topup_entry = wait_LTC3225 \<and> PGOOD topup_entry
   \<and> digital_in env_no_devices = (\<lambda>_. False)
   \<and> loop env_no_devices topup_entry = Some (case_wait_LTC3225 env_no_devices topup_entry)
   \<and> DigitalRead superCapPGOOD \<notin> set (calls (case_wait_LTC3225 env_no_devices topup_entry))
   \<and> PGOOD (case_wait_LTC3225 env_no_devices topup_entry)
   \<and> loop_step (case_wait_LTC3225 env_no_devices topup_entry) = start_9603"
proof -
  let ?e = env_no_devices
  let ?r = "topup_wait ?e (millis topup_entry) topup_entry"
  have s: "loop_step topup_entry = wait_LTC3225" "PGOOD topup_entry"
    by (simp_all add: topup_entry_def)
  have c: "calls topup_entry = []" "vbat topup_entry = 5"
    by (simp_all add: world_defs prim_defs Let_def)
  have pg: "PGOOD ?r"
    using s by (simp add: topup_wait_PGOOD)
  have ok: "\<not> vbat ?r < VBAT_LOW"
    by (rule topup_wait_good_battery) (simp add: c VBAT_LOW_def)
  have nr: "DigitalRead superCapPGOOD \<notin> set (calls ?r)"
    by (rule topup_wait_reads_no_pin) (simp add: c)
  have "case_wait_LTC3225 ?e topup_entry = ?r\<lparr>loop_step := start_9603\<rparr>"
    using pg ok by (simp add: case_wait_LTC3225_def wait_LTC3225_finish_def Let_def)
  then show ?thesis
    using s pg nr by (simp add: loop_def env_no_devices_def)
qed

end
